theory Spec2Isabelle
  imports Main "HOL-Library.Sublist"
begin

section \<open>Strings, requests and responses\<close>

text \<open>
  The service worker \<^verbatim>\<open>sw.js\<close> is embedded as functions over an explicit state. JavaScript
  strings are \<^typ>\<open>string\<close>; the three string tests the script uses are the ones of the
  list library.
\<close>

type_synonym url = string

definition startsWith :: "string \<Rightarrow> string \<Rightarrow> bool" where
  "startsWith s p = prefix p s"

definition endsWith :: "string \<Rightarrow> string \<Rightarrow> bool" where
  "endsWith s p = suffix p s"

definition includes_str :: "string \<Rightarrow> string \<Rightarrow> bool" where
  "includes_str s p = sublist p s"

text \<open>The decimal rendering of a non-negative number, as string concatenation produces it.\<close>

fun number_toString :: "nat \<Rightarrow> string" where
  "number_toString n =
     (if n < 10 then [''0123456789'' ! n]
      else number_toString (n div 10) @ [''0123456789'' ! (n mod 10)])"

declare number_toString.simps [simp del]

record response =
  status :: nat
  headers :: "(string \<times> string) list"
  body :: string

text \<open>\<^verbatim>\<open>response.ok\<close>: the status is in the range 200 to 299.\<close>

definition ok :: "response \<Rightarrow> bool" where
  "ok r = (200 \<le> status r \<and> status r \<le> 299)"

record request =
  req_method :: string
  url :: url
  destination :: string
  mode :: string
  accept :: "string option"

text \<open>
  What the network answers for a URL: no answer at all (the fetch rejects), or a response
  whose headers arrive after a latency in milliseconds.
\<close>

datatype net_reply = NetworkError string | Reply nat response

text \<open>
  The surroundings of one run of a handler: the clock reading at script evaluation (it names
  the cache version), the worker's location, the network, and the value \<^verbatim>\<open>Date.now()\<close>
  returns while the handler's synchronous code runs.
\<close>

record env =
  startTime :: nat
  location_origin :: string
  location_dir :: string
  network :: "url \<Rightarrow> net_reply"
  now :: nat

definition CACHE_BASE_NAME :: string where
  "CACHE_BASE_NAME = ''calendar-calculator''"

definition CACHE_VERSION :: "env \<Rightarrow> string" where
  "CACHE_VERSION env = ''v1.72-'' @ number_toString (startTime env)"

definition CACHE_NAME :: "env \<Rightarrow> string" where
  "CACHE_NAME env = CACHE_BASE_NAME @ ''-'' @ CACHE_VERSION env"

definition URLS_TO_CACHE :: "string list" where
  "URLS_TO_CACHE =
     [''./'', ''./index.html'', ''./i18n.js'', ''./manifest.json'', ''./sw.js'',
      ''./i18n/cs.json'', ''./i18n/en.json'', ''./i18n/de.json'', ''./i18n/fr.json'',
      ''./i18n/es.json'', ''./i18n/ru.json'', ''./i18n/uk.json'']"

text \<open>
  A cache is keyed by absolute URL. The script names resources by strings relative to its
  own location; of the platform's URL resolution only the three forms the script uses are
  modelled: \<^verbatim>\<open>./path\<close> (relative to the script's directory), \<^verbatim>\<open>/path\<close> (relative to
  the origin) and an absolute URL.
\<close>

definition resolve_url :: "env \<Rightarrow> string \<Rightarrow> url" where
  "resolve_url env u =
     (if startsWith u ''./'' then location_dir env @ drop 2 u
      else if startsWith u ''/'' then location_origin env @ u
      else u)"

section \<open>State, events and promises\<close>

datatype js_error = Error (message: string)

datatype js_value = Undefined | Boolean bool | Array "js_value list"

text \<open>
  The second argument of \<^verbatim>\<open>fetch\<close>: none, an abort signal that fires after so many
  milliseconds (with cache mode \<^verbatim>\<open>default\<close>), or cache mode \<^verbatim>\<open>no-cache\<close>.
\<close>

datatype fetch_init = NoInit | AbortAfter nat | NoCache

type_synonym client = nat

datatype message = SW_ACTIVATED string string | UPDATE_AVAILABLE url

text \<open>
  Console output: the warnings and errors, and the report that ends an install. Plain
  progress messages are left out.
\<close>

datatype console =
    FailedToCache string string
  | CacheCreationComplete nat nat
  | InstallationFailed string
  | ActivationError string
  | RequestHandlingFailed string

text \<open>
  An event is a call the script makes to the platform, in the order the calls are made.
  When an operation settles is not an event: a continuation attached with \<^verbatim>\<open>then\<close> or
  resumed after \<^verbatim>\<open>await\<close> runs after the operation has settled, so every event of a
  continuation comes after the settlement of what it waited for.
\<close>

datatype event =
    Fetch url fetch_init
  | CachesOpen string
  | CachesKeys
  | CachesDelete string
  | CacheMatch string url
  | CachePut string url
  | ClientsClaim
  | ClientsMatchAll
  | PostMessage client message
  | SkipWaiting
  | WaitUntil nat
  | Console console

datatype promise_state = Pending | Settled "js_error + js_value"

text \<open>
  Operations that were started but that no running code waits for: the install chain handed
  to \<^verbatim>\<open>event.waitUntil\<close>, the write of \<^verbatim>\<open>cache.put\<close> called without \<^verbatim>\<open>await\<close>, and
  the continuation of the background refresh.
\<close>

datatype detached =
    InstallChain nat
  | PutPending string url response
  | BackgroundUpdate request

text \<open>
  The script's globals (\<^verbatim>\<open>isInstalled\<close>, \<^verbatim>\<open>installPromise\<close>,
  \<^verbatim>\<open>self.lastBackgroundUpdate\<close>), the promise objects it has created, the origin's cache
  storage (named caches in creation order, as \<^verbatim>\<open>caches.keys()\<close> lists them), the connected
  client sessions, those this worker controls, and the detached operations outstanding.
\<close>

record sw_state =
  isInstalled :: bool
  installPromise :: "nat option"
  lastBackgroundUpdate :: "nat option"
  promises :: "promise_state list"
  caches :: "(string \<times> (url \<rightharpoonup> response)) list"
  clients :: "client list"
  controlled :: "client list"
  pending :: "detached list"

text \<open>
  Sequential asynchronous code is a task: from a state it settles to a rejection (\<open>Inl\<close>) or
  a value (\<open>Inr\<close>), having made some calls and changed the state. A handler runs without
  another handler's code in between.
\<close>

type_synonym 'a task = "sw_state \<Rightarrow> (js_error + 'a) \<times> event list \<times> sw_state"

definition resolve :: "'a \<Rightarrow> 'a task" where
  "resolve v = (\<lambda>s. (Inr v, [], s))"

definition throw :: "js_error \<Rightarrow> 'a task" where
  "throw e = (\<lambda>s. (Inl e, [], s))"

definition emit :: "event \<Rightarrow> unit task" where
  "emit e = (\<lambda>s. (Inr (), [e], s))"

definition modify :: "(sw_state \<Rightarrow> sw_state) \<Rightarrow> unit task" where
  "modify f = (\<lambda>s. (Inr (), [], f s))"

definition andThen :: "'a task \<Rightarrow> ('a \<Rightarrow> 'b task) \<Rightarrow> 'b task" where
  "andThen t f = (\<lambda>s.
     case t s of
       (Inl e, evs, s') \<Rightarrow> (Inl e, evs, s')
     | (Inr v, evs, s') \<Rightarrow> (case f v s' of (r, evs', s'') \<Rightarrow> (r, evs @ evs', s'')))"

definition tryCatch :: "'a task \<Rightarrow> (js_error \<Rightarrow> 'a task) \<Rightarrow> 'a task" where
  "tryCatch t h = (\<lambda>s.
     case t s of
       (Inl e, evs, s') \<Rightarrow> (case h e s' of (r, evs', s'') \<Rightarrow> (r, evs @ evs', s''))
     | (Inr v, evs, s') \<Rightarrow> (Inr v, evs, s'))"

fun forEach :: "'a list \<Rightarrow> ('a \<Rightarrow> unit task) \<Rightarrow> unit task" where
  "forEach [] f = resolve ()"
| "forEach (x # xs) f = andThen (f x) (\<lambda>_. forEach xs f)"

text \<open>
  A promise expression has two phases: the calls made when the expression is evaluated, and
  the rest, which runs when the operation settles. An array of promise expressions makes all
  its calls, in array order, before any of its continuations runs. The continuations of
  operations that run side by side are taken in array order.
\<close>

type_synonym 'a promise = "event list \<times> 'a task"

definition await :: "'a promise \<Rightarrow> 'a task" where
  "await p = (\<lambda>s. case snd p s of (r, evs, s') \<Rightarrow> (r, fst p @ evs, s'))"

definition then_p :: "'a promise \<Rightarrow> ('a \<Rightarrow> 'b task) \<Rightarrow> 'b promise" where
  "then_p p f = (fst p, andThen (snd p) f)"

definition catch_p :: "'a promise \<Rightarrow> (js_error \<Rightarrow> 'a task) \<Rightarrow> 'a promise" where
  "catch_p p h = (fst p, tryCatch (snd p) h)"

definition resolved :: "'a \<Rightarrow> 'a promise" where
  "resolved v = ([], resolve v)"

fun settle_each ::
  "'a task list \<Rightarrow> sw_state \<Rightarrow> (js_error + 'a) list \<times> event list \<times> sw_state" where
  "settle_each [] s = ([], [], s)"
| "settle_each (t # ts) s =
     (case t s of (r, evs, s') \<Rightarrow>
        (case settle_each ts s' of (rs, evs', s'') \<Rightarrow> (r # rs, evs @ evs', s'')))"

fun all_values :: "(js_error + js_value) list \<Rightarrow> js_error + js_value list" where
  "all_values [] = Inr []"
| "all_values (Inl e # rs) = Inl e"
| "all_values (Inr v # rs) = (case all_values rs of Inl e \<Rightarrow> Inl e | Inr vs \<Rightarrow> Inr (v # vs))"

definition Promise_all :: "js_value promise list \<Rightarrow> js_value promise" where
  "Promise_all ps =
     (concat (map fst ps),
      \<lambda>s. case settle_each (map snd ps) s of (rs, evs, s') \<Rightarrow>
             (case all_values rs of Inl e \<Rightarrow> Inl e | Inr vs \<Rightarrow> Inr (Array vs), evs, s'))"

datatype settlement = fulfilled js_value | rejected js_error

fun status_of :: "settlement \<Rightarrow> string" where
  "status_of (fulfilled v) = ''fulfilled''"
| "status_of (rejected e) = ''rejected''"

definition settlement_of :: "js_error + js_value \<Rightarrow> settlement" where
  "settlement_of r = (case r of Inl e \<Rightarrow> rejected e | Inr v \<Rightarrow> fulfilled v)"

definition Promise_allSettled :: "js_value promise list \<Rightarrow> settlement list promise" where
  "Promise_allSettled ps =
     (concat (map fst ps),
      \<lambda>s. case settle_each (map snd ps) s of (rs, evs, s') \<Rightarrow>
             (Inr (map settlement_of rs), evs, s'))"

definition detach :: "event list \<Rightarrow> detached \<Rightarrow> unit task" where
  "detach calls d = (\<lambda>s. (Inr (), calls, s\<lparr>pending := pending s @ [d]\<rparr>))"

section \<open>The platform\<close>

text \<open>
  The network is the collaborator that fails. Cache storage and the clients interface are
  total operations; a cache handle is the cache's name.
\<close>

definition fetch :: "env \<Rightarrow> url \<Rightarrow> fetch_init \<Rightarrow> response promise" where
  "fetch env u init =
     ([Fetch u init],
      \<lambda>s. (case network env u of
              NetworkError m \<Rightarrow> Inl (Error m)
            | Reply d r \<Rightarrow>
                (case init of
                   AbortAfter ms \<Rightarrow> if d < ms then Inr r else Inl (Error ''The operation was aborted'')
                 | _ \<Rightarrow> Inr r),
            [], s))"

definition caches_open :: "string \<Rightarrow> string promise" where
  "caches_open name =
     ([CachesOpen name],
      \<lambda>s. (Inr name, [],
            if map_of (caches s) name = None then s\<lparr>caches := caches s @ [(name, Map.empty)]\<rparr>
            else s))"

definition caches_keys :: "string list promise" where
  "caches_keys = ([CachesKeys], \<lambda>s. (Inr (map fst (caches s)), [], s))"

definition caches_delete :: "string \<Rightarrow> js_value promise" where
  "caches_delete name =
     ([CachesDelete name],
      \<lambda>s. (Inr (Boolean (map_of (caches s) name \<noteq> None)), [],
            s\<lparr>caches := filter (\<lambda>nc. fst nc \<noteq> name) (caches s)\<rparr>))"

definition cache_match :: "string \<Rightarrow> url \<Rightarrow> response option promise" where
  "cache_match cache key =
     ([CacheMatch cache key],
      \<lambda>s. (Inr (case map_of (caches s) cache of None \<Rightarrow> None | Some c \<Rightarrow> c key), [], s))"

definition store :: "string \<Rightarrow> url \<Rightarrow> response \<Rightarrow> sw_state \<Rightarrow> sw_state" where
  "store cache key r s =
     s\<lparr>caches := map (\<lambda>nc. if fst nc = cache then (fst nc, (snd nc)(key \<mapsto> r)) else nc) (caches s)\<rparr>"

definition cache_put :: "string \<Rightarrow> url \<Rightarrow> response \<Rightarrow> js_value promise" where
  "cache_put cache key r = ([CachePut cache key], \<lambda>s. (Inr Undefined, [], store cache key r s))"

definition clients_claim :: "js_value promise" where
  "clients_claim = ([ClientsClaim], \<lambda>s. (Inr Undefined, [], s\<lparr>controlled := clients s\<rparr>))"

definition clients_matchAll :: "client list promise" where
  "clients_matchAll =
     ([ClientsMatchAll], \<lambda>s. (Inr (filter (\<lambda>c. c \<in> set (controlled s)) (clients s)), [], s))"

definition skipWaiting :: "js_value promise" where
  "skipWaiting = ([SkipWaiting], \<lambda>s. (Inr Undefined, [], s))"

definition postMessage :: "client \<Rightarrow> message \<Rightarrow> unit task" where
  "postMessage c m = emit (PostMessage c m)"

section \<open>Install\<close>

text \<open>
  The callback of \<^verbatim>\<open>URLS_TO_CACHE.map\<close>: fetch the resource, store it when the response
  is ok, throw otherwise; the \<^verbatim>\<open>catch\<close> turns every rejection into a fulfilment.
\<close>

definition cacheOne :: "env \<Rightarrow> string \<Rightarrow> string \<Rightarrow> js_value promise" where
  "cacheOne env cache u =
     catch_p
       (then_p (fetch env (resolve_url env u) NoInit)
          (\<lambda>response.
             if ok response then await (cache_put cache (resolve_url env u) response)
             else throw (Error (''Failed to fetch: '' @ u))))
       (\<lambda>error.
          andThen (emit (Console (FailedToCache u (message error)))) (\<lambda>_. resolve Undefined))"

definition installChain :: "env \<Rightarrow> string list \<Rightarrow> js_value promise" where
  "installChain env manifest =
     catch_p
       (then_p
          (then_p (caches_open (CACHE_NAME env))
             (\<lambda>cache. await (Promise_allSettled (map (cacheOne env cache) manifest))))
          (\<lambda>results.
             let successful = length (filter (\<lambda>r. status_of r = ''fulfilled'') results);
                 failed = length (filter (\<lambda>r. status_of r = ''rejected'') results)
             in andThen (emit (Console (CacheCreationComplete successful failed)))
                  (\<lambda>_. andThen (modify (\<lambda>s. s\<lparr>isInstalled := True\<rparr>))
                     (\<lambda>_. await skipWaiting))))
       (\<lambda>error.
          andThen (emit (Console (InstallationFailed (message error)))) (\<lambda>_. await skipWaiting))"

text \<open>
  The install listener. With an attempt already recorded in \<^verbatim>\<open>installPromise\<close> it only
  waits on that promise. Otherwise it creates the chain (whose first call, opening the
  cache, is made at once), records its promise, and hands it to \<^verbatim>\<open>event.waitUntil\<close>; the
  chain runs on after the listener has returned.
\<close>

definition install_listener :: "env \<Rightarrow> unit task" where
  "install_listener env = (\<lambda>s.
     case installPromise s of
       Some p \<Rightarrow> (Inr (), [WaitUntil p], s)
     | None \<Rightarrow>
         let p = length (promises s) in
         (Inr (), fst (installChain env URLS_TO_CACHE) @ [WaitUntil p],
          s\<lparr>installPromise := Some p,
            promises := promises s @ [Pending],
            pending := pending s @ [InstallChain p]\<rparr>))"

section \<open>Activate\<close>

text \<open>
  The chain the activate listener hands to \<^verbatim>\<open>event.waitUntil\<close>. The array given to the
  outer \<^verbatim>\<open>Promise.all\<close> has two elements, the cleanup of old caches and
  \<^verbatim>\<open>self.clients.claim()\<close>; both are evaluated when the array is built.
\<close>

definition activateChain :: "env \<Rightarrow> unit promise" where
  "activateChain env =
     catch_p
       (then_p
          (then_p
             (Promise_all
                [then_p caches_keys
                   (\<lambda>cacheNames.
                      await (Promise_all
                        (map (\<lambda>cacheName.
                                if startsWith cacheName CACHE_BASE_NAME \<and> cacheName \<noteq> CACHE_NAME env
                                then caches_delete cacheName
                                else resolved Undefined)
                           cacheNames))),
                 clients_claim])
             (\<lambda>_. andThen (modify (\<lambda>s. s\<lparr>isInstalled := True\<rparr>))
                (\<lambda>_. await clients_matchAll)))
          (\<lambda>clients.
             forEach clients
               (\<lambda>client. postMessage client (SW_ACTIVATED (CACHE_NAME env) (CACHE_VERSION env)))))
       (\<lambda>error. emit (Console (ActivationError (message error))))"

text \<open>Activation, run until the chain has settled.\<close>

definition activate :: "env \<Rightarrow> unit task" where
  "activate env = await (activateChain env)"

section \<open>Request routing\<close>

definition isHTMLRequest :: "request \<Rightarrow> bool" where
  "isHTMLRequest request =
     (destination request = ''document'' \<or>
      mode request = ''navigate'' \<or>
      endsWith (url request) ''/'' \<or>
      includes_str (url request) ''index.html'' \<or>
      (case accept request of
         None \<Rightarrow> False
       | Some a \<Rightarrow> a \<noteq> [] \<and> includes_str a ''text/html''))"

text \<open>The loop over the alternative keys: the first hit wins.\<close>

fun matchFirst :: "string \<Rightarrow> url list \<Rightarrow> response option task" where
  "matchFirst cache [] = resolve None"
| "matchFirst cache (alt # alts) =
     andThen (await (cache_match cache alt))
       (\<lambda>response. case response of Some r \<Rightarrow> resolve (Some r) | None \<Rightarrow> matchFirst cache alts)"

definition getCachedResponse :: "env \<Rightarrow> request \<Rightarrow> response option task" where
  "getCachedResponse env request =
     andThen (await (caches_open (CACHE_NAME env)))
       (\<lambda>cache.
          andThen (await (cache_match cache (url request)))
            (\<lambda>response.
               case response of
                 Some r \<Rightarrow> resolve (Some r)
               | None \<Rightarrow>
                   if isHTMLRequest request
                   then matchFirst cache (map (resolve_url env) [''./'', ''./index.html'', ''/''])
                   else resolve None))"

text \<open>
  The markup of the offline page, a literal of the script. Its line breaks and indentation
  are dropped and its non-ASCII characters (the accented letters and the pictographs of the
  visible text) are written without accents or left out.
\<close>

definition offlineHTML :: string where
  "offlineHTML =
     ''<!DOCTYPE html><html lang=\"cs\"><head><meta charset=\"UTF-8\">'' @
     ''<meta name=\"viewport\" content=\"width=device-width, initial-scale=1.0\">'' @
     ''<title>Kalendarni kalkulator - Offline</title><style>'' @
     ''body { font-family: Arial, sans-serif; '' @
     ''background: linear-gradient(135deg, #8B7355 0%, #4A4A3A 100%); '' @
     ''color: #F5E6D3; margin: 0; padding: 20px; min-height: 100vh; '' @
     ''display: flex; align-items: center; justify-content: center; text-align: center; } '' @
     ''.container { background: rgba(0,0,0,0.3); padding: 40px; border-radius: 20px; max-width: 500px; } '' @
     ''h1 { margin-bottom: 20px; color: #CDBA96; } '' @
     ''.status { background: #f59e0b; color: white; padding: 15px 25px; border-radius: 25px; '' @
     ''margin: 20px 0; font-weight: bold; } '' @
     ''button { background: #8B7355; color: white; border: none; padding: 15px 30px; '' @
     ''border-radius: 10px; font-size: 16px; cursor: pointer; margin: 10px; } '' @
     ''button:hover { background: #6B5B47; }</style></head><body>'' @
     ''<div class=\"container\"><h1>Kalendarni kalkulator</h1>'' @
     ''<div class=\"status\">Cache se nacita...</div>'' @
     ''<p>Aplikace se pripravuje pro offline pouziti.</p>'' @
     ''<button onclick=\"window.location.reload()\">Zkusit znovu</button>'' @
     ''</div></body></html>''"

definition createOfflineResponse :: response where
  "createOfflineResponse =
     \<lparr>status = 200, headers = [(''Content-Type'', ''text/html; charset=utf-8'')], body = offlineHTML\<rparr>"

definition createErrorResponse :: response where
  "createErrorResponse =
     \<lparr>status = 500, headers = [(''Content-Type'', ''text/plain'')], body = ''Service Worker Error''\<rparr>"

text \<open>
  The network attempt of a cache miss, aborted after 5000 ms. On an ok response the script
  opens the cache and calls \<^verbatim>\<open>cache.put\<close> without waiting for it, then returns the
  response: the call is made, the write is left outstanding.
\<close>

definition tryNetwork :: "env \<Rightarrow> request \<Rightarrow> response task" where
  "tryNetwork env request =
     tryCatch
       (andThen (await (fetch env (url request) (AbortAfter 5000)))
          (\<lambda>response.
             if ok response then
               andThen (await (caches_open (CACHE_NAME env)))
                 (\<lambda>cache.
                    andThen (detach [CachePut cache (url request)]
                               (PutPending cache (url request) response))
                      (\<lambda>_. resolve response))
             else throw (Error ''Network response not ok'')))
       (\<lambda>error. if isHTMLRequest request then resolve createOfflineResponse else throw error)"

text \<open>
  The background refresh. Its synchronous part applies the rate limit, records the time and
  calls \<^verbatim>\<open>fetch\<close>; the continuation of that fetch is left outstanding.
  \<^verbatim>\<open>self.lastBackgroundUpdate\<close> is undefined (\<open>None\<close>) until first set, and a stored 0
  is falsy.
\<close>

definition updateInBackground :: "env \<Rightarrow> request \<Rightarrow> unit task" where
  "updateInBackground env request = (\<lambda>s.
     if (case lastBackgroundUpdate s of
           None \<Rightarrow> False
         | Some l \<Rightarrow> l \<noteq> 0 \<and> int (now env) - int l < 30000)
     then (Inr (), [], s)
     else (Inr (), [Fetch (url request) NoCache],
           s\<lparr>lastBackgroundUpdate := Some (now env),
             pending := pending s @ [BackgroundUpdate request]\<rparr>))"

text \<open>What runs when the fetch of the background refresh settles.\<close>

definition updateInBackground_then :: "env \<Rightarrow> request \<Rightarrow> unit task" where
  "updateInBackground_then env request =
     tryCatch
       (andThen (snd (fetch env (url request) NoCache))
          (\<lambda>response.
             if ok response then
               andThen (await (caches_open (CACHE_NAME env)))
                 (\<lambda>cache.
                    andThen (await (cache_match cache (url request)))
                      (\<lambda>cachedResponse.
                         case cachedResponse of
                           None \<Rightarrow> resolve ()
                         | Some cached \<Rightarrow>
                             if body response \<noteq> body cached then
                               andThen (await (cache_put cache (url request)
                                          \<lparr>status = 200, headers = headers response,
                                            body = body response\<rparr>))
                                 (\<lambda>_. andThen (await clients_matchAll)
                                    (\<lambda>clients.
                                       forEach clients
                                         (\<lambda>client.
                                            postMessage client (UPDATE_AVAILABLE (url request)))))
                             else resolve ()))
             else resolve ()))
       (\<lambda>error. resolve ())"

definition handleRequest :: "env \<Rightarrow> request \<Rightarrow> response task" where
  "handleRequest env request =
     tryCatch
       (andThen (getCachedResponse env request)
          (\<lambda>cachedResponse.
             case cachedResponse of
               Some cached \<Rightarrow>
                 andThen (if isHTMLRequest request then updateInBackground env request
                          else resolve ())
                   (\<lambda>_. resolve cached)
             | None \<Rightarrow> tryNetwork env request))
       (\<lambda>error.
          andThen (emit (Console (RequestHandlingFailed (message error))))
            (\<lambda>_. resolve createErrorResponse))"

text \<open>
  The fetch listener either leaves the request to the browser or answers it with the
  outcome of a promise: a rejection reaches the page as a failed request.
\<close>

datatype handling = NotIntercepted | RespondWith "js_error + response"

definition fetch_listener ::
  "env \<Rightarrow> request \<Rightarrow> sw_state \<Rightarrow> handling \<times> event list \<times> sw_state" where
  "fetch_listener env request s =
     (if req_method request \<noteq> ''GET'' then (NotIntercepted, [], s)
      else if \<not> startsWith (url request) (location_origin env) then (NotIntercepted, [], s)
      else if includes_str (url request) ''sw.js'' then
        (case await (fetch env (url request) NoInit) s of
           (r, evs, s') \<Rightarrow> (RespondWith r, evs, s'))
      else
        (case handleRequest env request s of
           (r, evs, s') \<Rightarrow> (RespondWith r, evs, s')))"

section \<open>Detached operations\<close>

text \<open>What an outstanding operation does when it settles.\<close>

definition run_detached :: "env \<Rightarrow> detached \<Rightarrow> sw_state \<Rightarrow> event list \<times> sw_state" where
  "run_detached env d s =
     (case d of
        InstallChain p \<Rightarrow>
          (case snd (installChain env URLS_TO_CACHE) s of
             (r, evs, s') \<Rightarrow> (evs, s'\<lparr>promises := (promises s')[p := Settled r]\<rparr>))
      | PutPending cache key r \<Rightarrow> ([], store cache key r s)
      | BackgroundUpdate request \<Rightarrow>
          (case updateInBackground_then env request s of (r, evs, s') \<Rightarrow> (evs, s')))"

fun settle_all :: "env \<Rightarrow> detached list \<Rightarrow> sw_state \<Rightarrow> event list \<times> sw_state" where
  "settle_all env [] s = ([], s)"
| "settle_all env (d # ds) s =
     (case run_detached env d s of (evs, s') \<Rightarrow>
        (case settle_all env ds s' of (evs', s'') \<Rightarrow> (evs @ evs', s'')))"

text \<open>All outstanding operations settle, oldest first.\<close>

definition settle_pending :: "env \<Rightarrow> sw_state \<Rightarrow> event list \<times> sw_state" where
  "settle_pending env s = settle_all env (pending s) (s\<lparr>pending := []\<rparr>)"

text \<open>An install run: the listener, then the chain it started runs to its end.\<close>

definition install :: "env \<Rightarrow> sw_state \<Rightarrow> event list \<times> sw_state" where
  "install env s =
     (case install_listener env s of (r, evs, s1) \<Rightarrow>
        (case settle_pending env s1 of (evs', s2) \<Rightarrow> (evs @ evs', s2)))"

section \<open>Notions used in the statements\<close>

text \<open>
  A manifest resource fails to fetch when the network gives no answer for it or answers
  with a status that is not ok.
\<close>

definition fetch_fails :: "env \<Rightarrow> string \<Rightarrow> bool" where
  "fetch_fails env u =
     (case network env (resolve_url env u) of NetworkError m \<Rightarrow> True | Reply d r \<Rightarrow> \<not> ok r)"

text \<open>The keys stored in a named cache, and the entry stored under a key.\<close>

definition entries :: "sw_state \<Rightarrow> string \<Rightarrow> url set" where
  "entries s name = (case map_of (caches s) name of None \<Rightarrow> {} | Some c \<Rightarrow> dom c)"

definition lookup :: "sw_state \<Rightarrow> string \<Rightarrow> url \<Rightarrow> response option" where
  "lookup s name key = (case map_of (caches s) name of None \<Rightarrow> None | Some c \<Rightarrow> c key)"

text \<open>The install reports among the events (successful count, failed count), and the URLs fetched.\<close>

fun install_reports :: "event list \<Rightarrow> (nat \<times> nat) list" where
  "install_reports [] = []"
| "install_reports (Console (CacheCreationComplete a b) # es) = (a, b) # install_reports es"
| "install_reports (e # es) = install_reports es"

fun fetched :: "event list \<Rightarrow> url list" where
  "fetched [] = []"
| "fetched (Fetch u i # es) = u # fetched es"
| "fetched (e # es) = fetched es"

text \<open>
  What settling one element of the install array does to the state and which events it
  adds; the state after \<^verbatim>\<open>caches.open\<close>.
\<close>

definition stored :: "env \<Rightarrow> string \<Rightarrow> string \<Rightarrow> sw_state \<Rightarrow> sw_state" where
  "stored env cache u s =
     (case network env (resolve_url env u) of
        NetworkError m \<Rightarrow> s
      | Reply d r \<Rightarrow> if ok r then store cache (resolve_url env u) r s else s)"

definition settle_events :: "env \<Rightarrow> string \<Rightarrow> string \<Rightarrow> event list" where
  "settle_events env cache u =
     (if fetch_fails env u
      then [Console (FailedToCache u (case network env (resolve_url env u) of
              NetworkError m \<Rightarrow> m | Reply d r \<Rightarrow> ''Failed to fetch: '' @ u))]
      else [CachePut cache (resolve_url env u)])"

definition opened :: "string \<Rightarrow> sw_state \<Rightarrow> sw_state" where
  "opened name s =
     (if map_of (caches s) name = None then s\<lparr>caches := caches s @ [(name, Map.empty)]\<rparr> else s)"

text \<open>A cache name the activation deletes: it starts with the base name and is not the current one.\<close>

definition superseded :: "env \<Rightarrow> string \<Rightarrow> bool" where
  "superseded env n = (startsWith n CACHE_BASE_NAME \<and> n \<noteq> CACHE_NAME env)"

text \<open>
  Order of events: \<open>all_before P Q evs\<close> says that no event satisfying \<open>P\<close> comes after an event
  satisfying \<open>Q\<close>, that is, every \<open>P\<close> event comes before every \<open>Q\<close> event.
\<close>

fun all_before :: "(event \<Rightarrow> bool) \<Rightarrow> (event \<Rightarrow> bool) \<Rightarrow> event list \<Rightarrow> bool" where
  "all_before P Q [] = True"
| "all_before P Q (e # es) = ((Q e \<longrightarrow> \<not> list_ex P es) \<and> all_before P Q es)"

fun is_delete :: "event \<Rightarrow> bool" where
  "is_delete (CachesDelete n) = True"
| "is_delete e = False"

fun is_claim :: "event \<Rightarrow> bool" where
  "is_claim ClientsClaim = True"
| "is_claim e = False"

fun is_notification :: "event \<Rightarrow> bool" where
  "is_notification (PostMessage c m) = True"
| "is_notification e = False"

text \<open>The messages posted to client sessions, in order.\<close>

fun notifications :: "event list \<Rightarrow> (client \<times> message) list" where
  "notifications [] = []"
| "notifications (PostMessage c m # es) = (c, m) # notifications es"
| "notifications (e # es) = notifications es"

text \<open>
  A request misses the cache when its own URL has no entry in the current cache and, for a
  page request, none of the three alternative keys has one.
\<close>

definition cache_miss :: "env \<Rightarrow> request \<Rightarrow> sw_state \<Rightarrow> bool" where
  "cache_miss env request s =
     (lookup s (CACHE_NAME env) (url request) = None \<and>
      (isHTMLRequest request \<longrightarrow>
         (\<forall>alt \<in> set [''./'', ''./index.html'', ''/''].
            lookup s (CACHE_NAME env) (resolve_url env alt) = None)))"

text \<open>
  The network attempt of \<^verbatim>\<open>tryNetwork\<close> fails when the network gives no answer, when the
  answer takes 5000 ms or longer (the abort fires), or when its status is not ok; the error
  it then fails with.
\<close>

definition attempt_fails :: "env \<Rightarrow> request \<Rightarrow> bool" where
  "attempt_fails env request =
     (case network env (url request) of
        NetworkError m \<Rightarrow> True
      | Reply d r \<Rightarrow> 5000 \<le> d \<or> \<not> ok r)"

definition attempt_error :: "env \<Rightarrow> request \<Rightarrow> js_error" where
  "attempt_error env request =
     (case network env (url request) of
        NetworkError m \<Rightarrow> Error m
      | Reply d r \<Rightarrow>
          if d < 5000 then Error ''Network response not ok''
          else Error ''The operation was aborted'')"

text \<open>
  The fetch the router makes for a request fails: as above on the path through
  \<^verbatim>\<open>handleRequest\<close>; for a URL containing \<^verbatim>\<open>sw.js\<close>, which is fetched without a time
  limit and handed on whatever its status, only when the network gives no answer.
\<close>

definition router_fetch_fails :: "env \<Rightarrow> request \<Rightarrow> bool" where
  "router_fetch_fails env request =
     (case network env (url request) of
        NetworkError m \<Rightarrow> True
      | Reply d r \<Rightarrow> \<not> includes_str (url request) ''sw.js'' \<and> (5000 \<le> d \<or> \<not> ok r))"

text \<open>What reaches the page is a failure: a rejection, or a response whose status is not ok.\<close>

fun is_failure :: "handling \<Rightarrow> bool" where
  "is_failure NotIntercepted = False"
| "is_failure (RespondWith (Inl e)) = True"
| "is_failure (RespondWith (Inr r)) = (\<not> ok r)"

text \<open>
  A sequence of invocations of the background refresh, each with the clock reading at which
  it runs. No other code of the script writes \<^verbatim>\<open>self.lastBackgroundUpdate\<close>.
\<close>

fun refreshes :: "env \<Rightarrow> (nat \<times> request) list \<Rightarrow> sw_state \<Rightarrow> event list list" where
  "refreshes env [] s = []"
| "refreshes env (call # calls) s =
     (case updateInBackground (env\<lparr>now := fst call\<rparr>) (snd call) s of
        (r, evs, s') \<Rightarrow> evs # refreshes env calls s')"

subsection \<open>A concrete worker\<close>

definition example_response :: response where
  "example_response =
     \<lparr>status = 200, headers = [(''Content-Type'', ''text/plain'')], body = ''content''\<rparr>"

text \<open>A network on which one manifest resource is unreachable and one is missing.\<close>

definition example_network :: "url \<Rightarrow> net_reply" where
  "example_network u =
     (if u = ''https://example.org/app/i18n/ru.json'' then NetworkError ''Failed to fetch''
      else if u = ''https://example.org/app/i18n/uk.json''
      then Reply 30 \<lparr>status = 404, headers = [], body = ''not found''\<rparr>
      else Reply 30 example_response)"

definition offline_network :: "url \<Rightarrow> net_reply" where
  "offline_network u = NetworkError ''Failed to fetch''"

definition example_env :: env where
  "example_env =
     \<lparr>startTime = 1700000000000, location_origin = ''https://example.org'',
      location_dir = ''https://example.org/app/'', network = example_network,
      now = 1700000100000\<rparr>"

text \<open>
  A worker that has just been started, with the cache of an earlier version and a cache of
  another application in storage, and two connected sessions.
\<close>

definition example_state :: sw_state where
  "example_state =
     \<lparr>isInstalled = False, installPromise = None, lastBackgroundUpdate = None, promises = [],
      caches = [(''calendar-calculator-v1.71-1690000000000'',
                 [''https://example.org/app/index.html'' \<mapsto> example_response]),
                (''weather-widget'', Map.empty)],
      clients = [1, 2], controlled = [], pending = []\<rparr>"

text \<open>The example worker after an install run on the example network.\<close>

definition example_installed :: sw_state where
  "example_installed = snd (install example_env example_state)"

text \<open>
  Requests: a script and a navigation asking for the worker's own file, a navigation to the
  cached index page, a request for a resource outside the manifest, and a navigation to a
  page outside the manifest.
\<close>

definition sw_request :: request where
  "sw_request =
     \<lparr>req_method = ''GET'', url = ''https://example.org/app/sw.js'', destination = [],
      mode = ''cors'', accept = Some ''*/*''\<rparr>"

definition sw_navigation :: request where
  "sw_navigation =
     \<lparr>req_method = ''GET'', url = ''https://example.org/app/sw.js'', destination = ''document'',
      mode = ''navigate'', accept = Some ''text/html,application/xhtml+xml''\<rparr>"

definition page_request :: request where
  "page_request =
     \<lparr>req_method = ''GET'', url = ''https://example.org/app/index.html'',
      destination = ''document'', mode = ''navigate'', accept = Some ''text/html''\<rparr>"

definition data_request :: request where
  "data_request =
     \<lparr>req_method = ''GET'', url = ''https://example.org/app/data.json'', destination = [],
      mode = ''cors'', accept = Some ''application/json''\<rparr>"

definition about_navigation :: request where
  "about_navigation =
     \<lparr>req_method = ''GET'', url = ''https://example.org/about'', destination = ''document'',
      mode = ''navigate'', accept = Some ''text/html''\<rparr>"

text \<open>The example worker without network.\<close>

definition offline_env :: env where
  "offline_env = example_env\<lparr>network := offline_network\<rparr>"

section \<open>Install: what a run stores and what it reports\<close>

subsection \<open>Cache storage\<close>

lemma map_of_map_entry:
  "map_of (map (\<lambda>nc. if fst nc = cache then (fst nc, f (snd nc)) else nc) al) n =
     (if n = cache then map_option f (map_of al n) else map_of al n)"
  by (induction al) auto

lemma map_of_store:
  "map_of (caches (store cache key r s)) n =
     (if n = cache then map_option (\<lambda>c. c(key \<mapsto> r)) (map_of (caches s) n) else map_of (caches s) n)"
  using map_of_map_entry [of cache "\<lambda>c. c(key \<mapsto> r)" "caches s" n]
  by (simp add: store_def)

lemma entries_store:
  "entries (store cache key r s) n =
     (if n = cache \<and> map_of (caches s) n \<noteq> None then insert key (entries s n) else entries s n)"
  by (auto simp: entries_def map_of_store split: option.splits)

subsection \<open>One element of the install array\<close>

text \<open>
  Whatever the network does, an element of the array settles as fulfilled: an ok response
  is stored, anything else is logged by the \<^verbatim>\<open>catch\<close>.
\<close>

lemma cacheOne_settles:
  "snd (cacheOne env cache u) s =
     (Inr Undefined,
      (if fetch_fails env u
       then [Console (FailedToCache u (case network env (resolve_url env u) of
                 NetworkError m \<Rightarrow> m | Reply d r \<Rightarrow> ''Failed to fetch: '' @ u))]
       else [CachePut cache (resolve_url env u)]),
      (case network env (resolve_url env u) of
         NetworkError m \<Rightarrow> s
       | Reply d r \<Rightarrow> if ok r then store cache (resolve_url env u) r s else s))"
  by (simp add: cacheOne_def catch_p_def then_p_def fetch_def tryCatch_def andThen_def
      await_def cache_put_def throw_def emit_def resolve_def fetch_fails_def
      split: net_reply.splits)

lemma fst_cacheOne: "fst (cacheOne env cache u) = [Fetch (resolve_url env u) NoInit]"
  by (simp add: cacheOne_def catch_p_def then_p_def fetch_def)

lemma cacheOne_settles':
  "snd (cacheOne env cache u) s = (Inr Undefined, settle_events env cache u, stored env cache u s)"
  by (simp add: cacheOne_settles settle_events_def stored_def)

lemma settle_each_cacheOne:
  "settle_each (map (\<lambda>u. snd (cacheOne env cache u)) manifest) s =
     (replicate (length manifest) (Inr Undefined),
      concat (map (settle_events env cache) manifest),
      fold (stored env cache) manifest s)"
  by (induction manifest arbitrary: s) (simp_all add: cacheOne_settles')

lemma allSettled_cacheOne:
  "Promise_allSettled (map (cacheOne env cache) manifest) =
     (map (\<lambda>u. Fetch (resolve_url env u) NoInit) manifest,
      \<lambda>s. (Inr (replicate (length manifest) (fulfilled Undefined)),
            concat (map (settle_events env cache) manifest),
            fold (stored env cache) manifest s))"
proof -
  have a: "concat (map fst (map (cacheOne env cache) manifest)) =
      map (\<lambda>u. Fetch (resolve_url env u) NoInit) manifest"
    by (induction manifest) (simp_all add: fst_cacheOne)
  have b: "map snd (map (cacheOne env cache) manifest) = map (\<lambda>u. snd (cacheOne env cache u)) manifest"
    by simp
  show ?thesis
    unfolding Promise_allSettled_def a b
    by (simp add: settle_each_cacheOne settlement_of_def)
qed

subsection \<open>The whole chain\<close>

lemma installChain_calls: "fst (installChain env manifest) = [CachesOpen (CACHE_NAME env)]"
  by (simp add: installChain_def catch_p_def then_p_def caches_open_def)

lemma installChain_settles:
  "snd (installChain env manifest) s =
     (Inr Undefined,
      map (\<lambda>u. Fetch (resolve_url env u) NoInit) manifest @
      concat (map (settle_events env (CACHE_NAME env)) manifest) @
      [Console (CacheCreationComplete (length manifest) 0), SkipWaiting],
      (fold (stored env (CACHE_NAME env)) manifest (opened (CACHE_NAME env) s))\<lparr>isInstalled := True\<rparr>)"
  by (simp add: installChain_def catch_p_def then_p_def caches_open_def tryCatch_def andThen_def
      await_def allSettled_cacheOne emit_def modify_def skipWaiting_def opened_def Let_def)

lemma stored_fields [simp]:
  "isInstalled (stored env cache u s) = isInstalled s"
  "installPromise (stored env cache u s) = installPromise s"
  "lastBackgroundUpdate (stored env cache u s) = lastBackgroundUpdate s"
  "promises (stored env cache u s) = promises s"
  "clients (stored env cache u s) = clients s"
  "controlled (stored env cache u s) = controlled s"
  "pending (stored env cache u s) = pending s"
  "map fst (caches (stored env cache u s)) = map fst (caches s)"
  by (auto simp: stored_def store_def split: net_reply.splits)

lemma fold_stored_fields [simp]:
  "isInstalled (fold (stored env cache) manifest s) = isInstalled s"
  "installPromise (fold (stored env cache) manifest s) = installPromise s"
  "lastBackgroundUpdate (fold (stored env cache) manifest s) = lastBackgroundUpdate s"
  "promises (fold (stored env cache) manifest s) = promises s"
  "clients (fold (stored env cache) manifest s) = clients s"
  "controlled (fold (stored env cache) manifest s) = controlled s"
  "pending (fold (stored env cache) manifest s) = pending s"
  "map fst (caches (fold (stored env cache) manifest s)) = map fst (caches s)"
  by (induction manifest arbitrary: s) simp_all

lemma entries_stored:
  "entries (stored env cache u s) cache =
     (if map_of (caches s) cache \<noteq> None \<and> \<not> fetch_fails env u
      then insert (resolve_url env u) (entries s cache) else entries s cache)"
  by (auto simp: stored_def entries_store fetch_fails_def split: net_reply.splits)

lemma stored_exists:
  "(map_of (caches (stored env cache u s)) n = None) = (map_of (caches s) n = None)"
  by (simp add: stored_def map_of_store split: net_reply.splits)

lemma entries_fold_stored:
  "map_of (caches s) cache \<noteq> None \<Longrightarrow>
   entries (fold (stored env cache) manifest s) cache =
     entries s cache \<union> resolve_url env ` {u \<in> set manifest. \<not> fetch_fails env u}"
proof (induction manifest arbitrary: s)
  case Nil
  then show ?case by simp
next
  case (Cons u us)
  have "map_of (caches (stored env cache u s)) cache \<noteq> None"
    using Cons.prems by (simp add: stored_exists)
  from Cons.IH [OF this] Cons.prems show ?case
    by (auto simp: entries_stored)
qed

lemma card_fetched:
  assumes "distinct (map (resolve_url env) manifest)"
  shows "card (resolve_url env ` {u \<in> set manifest. \<not> fetch_fails env u}) =
           length manifest - length (filter (fetch_fails env) manifest)"
proof -
  have inj: "inj_on (resolve_url env) (set manifest)" and dist: "distinct manifest"
    using assms by (simp_all add: distinct_map)
  have "card (resolve_url env ` {u \<in> set manifest. \<not> fetch_fails env u}) =
      card {u \<in> set manifest. \<not> fetch_fails env u}"
    by (rule card_image) (rule inj_on_subset [OF inj], auto)
  also have "\<dots> = card (set (filter (\<lambda>u. \<not> fetch_fails env u) manifest))"
    by simp
  also have "\<dots> = length (filter (\<lambda>u. \<not> fetch_fails env u) manifest)"
    by (rule distinct_card) (simp add: dist)
  also have "\<dots> = length manifest - length (filter (fetch_fails env) manifest)"
    using sum_length_filter_compl [of "fetch_fails env" manifest] by simp
  finally show ?thesis .
qed

lemma distinct_URLS_TO_CACHE: "distinct (map (resolve_url env) URLS_TO_CACHE)"
  by (simp add: URLS_TO_CACHE_def resolve_url_def startsWith_def)

lemma length_URLS_TO_CACHE: "length URLS_TO_CACHE = 12"
  by (simp add: URLS_TO_CACHE_def)

lemma entries_opened:
  "map_of (caches s) name = None \<Longrightarrow>
     map_of (caches (opened name s)) name = Some Map.empty"
  by (simp add: opened_def map_add_def)

lemma install_first_run:
  assumes "installPromise s = None" and "pending s = []"
  shows "install env s =
     ([CachesOpen (CACHE_NAME env), WaitUntil (length (promises s))] @
      map (\<lambda>u. Fetch (resolve_url env u) NoInit) URLS_TO_CACHE @
      concat (map (settle_events env (CACHE_NAME env)) URLS_TO_CACHE) @
      [Console (CacheCreationComplete (length URLS_TO_CACHE) 0), SkipWaiting],
      (fold (stored env (CACHE_NAME env)) URLS_TO_CACHE
         (opened (CACHE_NAME env)
            (s\<lparr>installPromise := Some (length (promises s)),
               promises := promises s @ [Pending], pending := []\<rparr>)))
        \<lparr>isInstalled := True,
         promises := (promises s @ [Pending])[length (promises s) := Settled (Inr Undefined)]\<rparr>)"
  using assms
  by (simp add: install_def install_listener_def settle_pending_def run_detached_def
      installChain_calls installChain_settles Let_def opened_def)

lemma example_name_fresh: "map_of (caches example_state) (CACHE_NAME example_env) = None"
  by (simp add: example_state_def CACHE_NAME_def CACHE_BASE_NAME_def CACHE_VERSION_def)

lemma example_failures:
  "length (filter (fetch_fails example_env) URLS_TO_CACHE) = 2"
  by (simp add: URLS_TO_CACHE_def fetch_fails_def example_env_def example_network_def
      resolve_url_def startsWith_def ok_def example_response_def)

text \<open>
  C1. An install run over the manifest, of whose \<open>N\<close> resources \<open>K\<close> fail to fetch, ends
  with exactly \<open>N - K\<close> entries in the cache of the new version, and it is reported
  complete: the completion report is logged, no installation failure is, the worker asks to
  skip waiting, \<^verbatim>\<open>isInstalled\<close> is set and the install promise is fulfilled. This holds for
  every \<open>K\<close>, also when all fetches fail.
\<close>

theorem install_stores_every_fetched_resource:
  assumes "installPromise s = None" and "pending s = []"
    and "map_of (caches s) (CACHE_NAME env) = None"
    and "install env s = (evs, s')"
  shows "card (entries s' (CACHE_NAME env)) =
           length URLS_TO_CACHE - length (filter (fetch_fails env) URLS_TO_CACHE) \<and>
         (\<exists>a b. Console (CacheCreationComplete a b) \<in> set evs) \<and>
         (\<forall>m. Console (InstallationFailed m) \<notin> set evs) \<and>
         SkipWaiting \<in> set evs \<and>
         isInstalled s' \<and>
         (\<exists>p. installPromise s' = Some p \<and> promises s' ! p = Settled (Inr Undefined))"
proof -
  let ?s0 = "s\<lparr>installPromise := Some (length (promises s)),
               promises := promises s @ [Pending], pending := []\<rparr>"
  let ?s1 = "opened (CACHE_NAME env) ?s0"
  from assms(1,2,4) have evs: "evs =
      [CachesOpen (CACHE_NAME env), WaitUntil (length (promises s))] @
      map (\<lambda>u. Fetch (resolve_url env u) NoInit) URLS_TO_CACHE @
      concat (map (settle_events env (CACHE_NAME env)) URLS_TO_CACHE) @
      [Console (CacheCreationComplete (length URLS_TO_CACHE) 0), SkipWaiting]"
    and s': "s' = (fold (stored env (CACHE_NAME env)) URLS_TO_CACHE ?s1)
        \<lparr>isInstalled := True,
         promises := (promises s @ [Pending])[length (promises s) := Settled (Inr Undefined)]\<rparr>"
    by (simp_all add: install_first_run)
  have open1: "map_of (caches ?s1) (CACHE_NAME env) = Some Map.empty"
    using assms(3) by (simp add: entries_opened)
  then have "entries ?s1 (CACHE_NAME env) = {}"
    by (simp add: entries_def)
  with open1 have "entries (fold (stored env (CACHE_NAME env)) URLS_TO_CACHE ?s1) (CACHE_NAME env) =
      resolve_url env ` {u \<in> set URLS_TO_CACHE. \<not> fetch_fails env u}"
    by (simp add: entries_fold_stored)
  then have "entries s' (CACHE_NAME env) =
      resolve_url env ` {u \<in> set URLS_TO_CACHE. \<not> fetch_fails env u}"
    by (simp add: s' entries_def)
  then have count: "card (entries s' (CACHE_NAME env)) =
      length URLS_TO_CACHE - length (filter (fetch_fails env) URLS_TO_CACHE)"
    by (simp add: card_fetched [OF distinct_URLS_TO_CACHE])
  have nofail: "\<forall>m. Console (InstallationFailed m) \<notin> set evs"
    by (auto simp: evs settle_events_def)
  have "installPromise s' = Some (length (promises s)) \<and>
      promises s' ! length (promises s) = Settled (Inr Undefined)"
    by (simp add: s' opened_def)
  moreover have "Console (CacheCreationComplete (length URLS_TO_CACHE) 0) \<in> set evs"
    and "SkipWaiting \<in> set evs" and "isInstalled s'"
    by (simp_all add: evs s')
  ultimately show ?thesis
    using count nofail by blast
qed

theorem install_stores_every_fetched_resource_witness:
  "installPromise example_state = None \<and> pending example_state = [] \<and>
   map_of (caches example_state) (CACHE_NAME example_env) = None \<and>
   length (filter (fetch_fails example_env) URLS_TO_CACHE) = 2 \<and>
   card (entries (snd (install example_env example_state)) (CACHE_NAME example_env)) = 10 \<and>
   isInstalled (snd (install example_env example_state))"
  using install_stores_every_fetched_resource
    [of example_state example_env "fst (install example_env example_state)"
      "snd (install example_env example_state)"]
    example_name_fresh example_failures length_URLS_TO_CACHE
  by (simp add: example_state_def)

lemma install_reports_append:
  "install_reports (xs @ ys) = install_reports xs @ install_reports ys"
  by (induction xs rule: install_reports.induct) simp_all

lemma install_reports_fetches: "install_reports (map (\<lambda>u. Fetch (f u) i) us) = []"
  by (induction us) simp_all

lemma install_reports_settle_events:
  "install_reports (concat (map (settle_events env cache) us)) = []"
  by (induction us) (simp_all add: install_reports_append settle_events_def)

text \<open>
  C10. The report at the end of an install run counts zero failed resources, however many
  fetches failed: every element of the array given to \<^verbatim>\<open>Promise.allSettled\<close> settles as
  fulfilled, so no result has status \<^verbatim>\<open>rejected\<close>.
\<close>

theorem install_report_never_counts_a_failure:
  assumes "installPromise s = None" and "pending s = []"
    and "install env s = (evs, s')"
  shows "install_reports evs = [(length URLS_TO_CACHE, 0)] \<and>
         (\<forall>cache s0. \<exists>results evs0 s1.
             snd (Promise_allSettled (map (cacheOne env cache) URLS_TO_CACHE)) s0 =
               (Inr results, evs0, s1) \<and>
             length results = length URLS_TO_CACHE \<and>
             filter (\<lambda>r. status_of r = ''rejected'') results = [])"
proof -
  from assms have "evs =
      [CachesOpen (CACHE_NAME env), WaitUntil (length (promises s))] @
      map (\<lambda>u. Fetch (resolve_url env u) NoInit) URLS_TO_CACHE @
      concat (map (settle_events env (CACHE_NAME env)) URLS_TO_CACHE) @
      [Console (CacheCreationComplete (length URLS_TO_CACHE) 0), SkipWaiting]"
    by (simp add: install_first_run)
  then have "install_reports evs = [(length URLS_TO_CACHE, 0)]"
    by (simp add: install_reports_append install_reports_fetches install_reports_settle_events)
  then show ?thesis
    by (simp add: allSettled_cacheOne)
qed

theorem install_report_never_counts_a_failure_witness:
  "length (filter (fetch_fails (example_env\<lparr>network := offline_network\<rparr>)) URLS_TO_CACHE) = 12 \<and>
   install_reports (fst (install (example_env\<lparr>network := offline_network\<rparr>) example_state)) =
     [(12, 0)]"
  using install_report_never_counts_a_failure
    [of example_state "example_env\<lparr>network := offline_network\<rparr>"
      "fst (install (example_env\<lparr>network := offline_network\<rparr>) example_state)"
      "snd (install (example_env\<lparr>network := offline_network\<rparr>) example_state)"]
    length_URLS_TO_CACHE
  by (simp add: example_state_def fetch_fails_def offline_network_def)

section \<open>Install: a second invocation\<close>

lemma fetched_append: "fetched (xs @ ys) = fetched xs @ fetched ys"
  by (induction xs rule: fetched.induct) simp_all

lemma fetched_fetches: "fetched (map (\<lambda>u. Fetch (f u) i) us) = map f us"
  by (induction us) simp_all

lemma fetched_settle_events: "fetched (concat (map (settle_events env cache) us)) = []"
  by (induction us) (simp_all add: fetched_append settle_events_def)

lemma opened_fields [simp]:
  "isInstalled (opened name s) = isInstalled s"
  "installPromise (opened name s) = installPromise s"
  "lastBackgroundUpdate (opened name s) = lastBackgroundUpdate s"
  "promises (opened name s) = promises s"
  "clients (opened name s) = clients s"
  "controlled (opened name s) = controlled s"
  "pending (opened name s) = pending s"
  by (simp_all add: opened_def)

lemma install_listener_first:
  "installPromise s = None \<Longrightarrow>
   install_listener env s =
     (Inr (), [CachesOpen (CACHE_NAME env), WaitUntil (length (promises s))],
      s\<lparr>installPromise := Some (length (promises s)),
        promises := promises s @ [Pending],
        pending := pending s @ [InstallChain (length (promises s))]\<rparr>)"
  by (simp add: install_listener_def installChain_calls Let_def)

lemma install_listener_again:
  "installPromise s = Some p \<Longrightarrow> install_listener env s = (Inr (), [WaitUntil p], s)"
  by (simp add: install_listener_def)

text \<open>
  C4. A second invocation of the install listener while the first attempt is in flight (its
  promise still pending, its chain still outstanding) starts nothing: it waits on the very
  promise the first invocation waits on and leaves the state as it is. Over both invocations
  and the settling of the chain, each manifest resource is fetched exactly once.
\<close>

theorem second_install_joins_the_attempt_in_flight:
  assumes "installPromise s = None" and "pending s = []"
    and "install_listener env s = (r1, evs1, s1)"
    and "install_listener env s1 = (r2, evs2, s2)"
    and "settle_pending env s2 = (evs3, s3)"
  shows "\<exists>p. installPromise s1 = Some p \<and> promises s1 ! p = Pending \<and>
             pending s1 = [InstallChain p] \<and>
             WaitUntil p \<in> set evs1 \<and> evs2 = [WaitUntil p] \<and> s2 = s1 \<and>
             fetched (evs1 @ evs2 @ evs3) = map (resolve_url env) URLS_TO_CACHE \<and>
             distinct (fetched (evs1 @ evs2 @ evs3)) \<and>
             promises s3 ! p = Settled (Inr Undefined)"
proof -
  let ?p = "length (promises s)"
  from assms(1,3) have evs1: "evs1 = [CachesOpen (CACHE_NAME env), WaitUntil ?p]"
    and s1: "s1 = s\<lparr>installPromise := Some ?p, promises := promises s @ [Pending],
        pending := pending s @ [InstallChain ?p]\<rparr>"
    by (simp_all add: install_listener_first)
  have ip: "installPromise s1 = Some ?p"
    by (simp add: s1)
  from assms(4) have evs2: "evs2 = [WaitUntil ?p]" and s2: "s2 = s1"
    by (simp_all add: install_listener_again [OF ip])
  from assms(5) have evs3: "evs3 =
      map (\<lambda>u. Fetch (resolve_url env u) NoInit) URLS_TO_CACHE @
      concat (map (settle_events env (CACHE_NAME env)) URLS_TO_CACHE) @
      [Console (CacheCreationComplete (length URLS_TO_CACHE) 0), SkipWaiting]"
    and p3: "promises s3 ! ?p = Settled (Inr Undefined)"
    by (auto simp: s2 s1 assms(2) settle_pending_def run_detached_def installChain_settles)
  have f: "fetched (evs1 @ evs2 @ evs3) = map (resolve_url env) URLS_TO_CACHE"
    by (simp add: evs1 evs2 evs3 fetched_append fetched_fetches fetched_settle_events)
  have "promises s1 ! ?p = Pending" and "pending s1 = [InstallChain ?p]"
    by (simp_all add: s1 assms(2))
  with ip evs1 evs2 s2 f p3 show ?thesis
    by (simp add: distinct_URLS_TO_CACHE)
qed

theorem second_install_joins_the_attempt_in_flight_witness:
  "installPromise example_state = None \<and> pending example_state = [] \<and>
   fst (snd (install_listener example_env (snd (snd (install_listener example_env example_state)))))
     = [WaitUntil 0] \<and>
   length (fetched
     (fst (snd (install_listener example_env example_state)) @
      fst (snd (install_listener example_env (snd (snd (install_listener example_env example_state))))) @
      fst (settle_pending example_env
        (snd (snd (install_listener example_env (snd (snd (install_listener example_env example_state))))))))) = 12"
  using second_install_joins_the_attempt_in_flight
    [of example_state example_env
      "fst (install_listener example_env example_state)"
      "fst (snd (install_listener example_env example_state))"
      "snd (snd (install_listener example_env example_state))"
      "fst (install_listener example_env (snd (snd (install_listener example_env example_state))))"
      "fst (snd (install_listener example_env (snd (snd (install_listener example_env example_state)))))"
      "snd (snd (install_listener example_env (snd (snd (install_listener example_env example_state)))))"
      "fst (settle_pending example_env
        (snd (snd (install_listener example_env (snd (snd (install_listener example_env example_state)))))))"
      "snd (settle_pending example_env
        (snd (snd (install_listener example_env (snd (snd (install_listener example_env example_state)))))))"]
    length_URLS_TO_CACHE
  by (auto simp: example_state_def install_listener_def installChain_calls Let_def)

section \<open>Activate\<close>

lemma forEach_postMessage:
  "forEach cs (\<lambda>c. postMessage c m) s = (Inr (), map (\<lambda>c. PostMessage c m) cs, s)"
  by (induction cs arbitrary: s) (simp_all add: resolve_def andThen_def postMessage_def emit_def)

lemma all_values_Inr: "all_values (map Inr vs) = Inr vs"
  by (induction vs) simp_all

lemma delete_calls:
  "concat (map (\<lambda>cacheName. fst (if superseded env cacheName then caches_delete cacheName
                                  else resolved Undefined)) names) =
     map CachesDelete (filter (superseded env) names)"
  by (induction names) (simp_all add: caches_delete_def resolved_def)

lemma delete_settles:
  "\<exists>vs. settle_each (map (\<lambda>cacheName. snd (if superseded env cacheName then caches_delete cacheName
                                            else resolved Undefined)) names) s =
     (map Inr vs, [],
      s\<lparr>caches := filter (\<lambda>nc. \<not> (superseded env (fst nc) \<and> fst nc \<in> set names)) (caches s)\<rparr>)"
proof (induction names arbitrary: s)
  case Nil
  show ?case by (rule exI [of _ "[]"]) simp
next
  case (Cons n ns)
  show ?case
  proof (cases "superseded env n")
    case True
    let ?s1 = "s\<lparr>caches := filter (\<lambda>nc. fst nc \<noteq> n) (caches s)\<rparr>"
    from Cons.IH [of ?s1] obtain vs where
      "settle_each (map (\<lambda>cacheName. snd (if superseded env cacheName then caches_delete cacheName
                                            else resolved Undefined)) ns) ?s1 =
       (map Inr vs, [],
        ?s1\<lparr>caches := filter (\<lambda>nc. \<not> (superseded env (fst nc) \<and> fst nc \<in> set ns)) (caches ?s1)\<rparr>)"
      by blast
    moreover have "filter (\<lambda>x. fst x \<noteq> n \<and> (superseded env (fst x) \<longrightarrow> fst x \<notin> set ns)) (caches s) =
        filter (\<lambda>nc. superseded env (fst nc) \<longrightarrow> fst nc \<noteq> n \<and> fst nc \<notin> set ns) (caches s)"
      using True by (intro filter_cong) auto
    ultimately show ?thesis
      using True
      by (intro exI [of _ "Boolean (map_of (caches s) n \<noteq> None) # vs"])
        (simp add: caches_delete_def)
  next
    case False
    from Cons.IH [of s] obtain vs where
      "settle_each (map (\<lambda>cacheName. snd (if superseded env cacheName then caches_delete cacheName
                                            else resolved Undefined)) ns) s =
       (map Inr vs, [],
        s\<lparr>caches := filter (\<lambda>nc. \<not> (superseded env (fst nc) \<and> fst nc \<in> set ns)) (caches s)\<rparr>)"
      by blast
    moreover have "filter (\<lambda>nc. superseded env (fst nc) \<longrightarrow> fst nc \<notin> set ns) (caches s) =
        filter (\<lambda>nc. superseded env (fst nc) \<longrightarrow> fst nc \<noteq> n \<and> fst nc \<notin> set ns) (caches s)"
      using False by (intro filter_cong) auto
    ultimately show ?thesis
      using False
      by (intro exI [of _ "Undefined # vs"])
        (simp add: resolved_def resolve_def)
  qed
qed

lemma activate_run:
  "activate env s =
     (Inr (),
      [CachesKeys, ClientsClaim] @
      map CachesDelete (filter (superseded env) (map fst (caches s))) @
      ClientsMatchAll #
      map (\<lambda>c. PostMessage c (SW_ACTIVATED (CACHE_NAME env) (CACHE_VERSION env))) (clients s),
      s\<lparr>isInstalled := True,
        caches := filter (\<lambda>nc. \<not> superseded env (fst nc)) (caches s),
        controlled := clients s\<rparr>)"
proof -
  obtain vs where vs:
    "settle_each (map (\<lambda>x. snd (if superseded env (fst x) then caches_delete (fst x)
                                   else resolved Undefined)) (caches s)) s =
     (map Inr vs, [],
      s\<lparr>caches := filter (\<lambda>nc. \<not> (superseded env (fst nc) \<and> fst nc \<in> set (map fst (caches s))))
                    (caches s)\<rparr>)"
    using delete_settles [of env "map fst (caches s)" s] by (auto simp: comp_def)
  have same: "filter (\<lambda>nc. superseded env (fst nc) \<longrightarrow> fst nc \<notin> fst ` set (caches s)) (caches s) =
      filter (\<lambda>nc. \<not> superseded env (fst nc)) (caches s)"
    by (rule filter_cong) auto
  show ?thesis
    unfolding activate_def activateChain_def superseded_def [symmetric]
    by (simp add: catch_p_def then_p_def Promise_all_def await_def tryCatch_def andThen_def
        caches_keys_def clients_claim_def clients_matchAll_def modify_def comp_def
        delete_calls vs same all_values_Inr forEach_postMessage)
qed

lemma all_before_append:
  "all_before P Q (xs @ ys) =
     (all_before P Q xs \<and> all_before P Q ys \<and> (list_ex Q xs \<longrightarrow> \<not> list_ex P ys))"
  by (induction xs) auto

lemma all_before_none: "\<not> list_ex P es \<Longrightarrow> all_before P Q es"
  by (induction es) auto

lemma all_before_no_later: "\<not> list_ex Q es \<Longrightarrow> all_before P Q es"
  by (induction es) auto

lemma notifications_append: "notifications (xs @ ys) = notifications xs @ notifications ys"
  by (induction xs rule: notifications.induct) simp_all

lemma notifications_deletes: "notifications (map CachesDelete ns) = []"
  by (induction ns) simp_all

lemma notifications_posts: "notifications (map (\<lambda>c. PostMessage c m) cs) = map (\<lambda>c. (c, m)) cs"
  by (induction cs) simp_all

lemma filter_only:
  "distinct xs \<Longrightarrow> x \<in> set xs \<Longrightarrow> filter (\<lambda>y. y = x) xs = [x]"
  by (induction xs) (auto simp: filter_empty_conv)

lemma CACHE_NAME_startsWith: "startsWith (CACHE_NAME env) CACHE_BASE_NAME"
  by (simp add: startsWith_def CACHE_NAME_def)

lemma example_installed_names:
  "map fst (caches example_installed) =
     [''calendar-calculator-v1.71-1690000000000'', ''weather-widget'', CACHE_NAME example_env]"
  using example_name_fresh
  by (simp add: example_installed_def install_first_run example_state_def opened_def)

lemma example_installed_clients: "clients example_installed = [1, 2]"
  by (simp add: example_installed_def install_first_run example_state_def)

lemma example_superseded:
  "superseded example_env ''calendar-calculator-v1.71-1690000000000''"
  "\<not> superseded example_env ''weather-widget''"
  "\<not> superseded example_env (CACHE_NAME example_env)"
  by (simp_all add: superseded_def startsWith_def CACHE_NAME_def CACHE_BASE_NAME_def CACHE_VERSION_def)

lemma example_activation_events:
  "fst (snd (activate example_env example_installed)) =
     [CachesKeys, ClientsClaim, CachesDelete ''calendar-calculator-v1.71-1690000000000'',
      ClientsMatchAll,
      PostMessage 1 (SW_ACTIVATED (CACHE_NAME example_env) (CACHE_VERSION example_env)),
      PostMessage 2 (SW_ACTIVATED (CACHE_NAME example_env) (CACHE_VERSION example_env))]"
  by (simp add: activate_run example_installed_names example_installed_clients example_superseded)

text \<open>An install run leaves the current version's cache in storage, each name once.\<close>

lemma install_opens_the_current_cache:
  assumes "installPromise s = None" and "pending s = []"
  shows "CACHE_NAME env \<in> set (map fst (caches (snd (install env s))))"
    and "distinct (map fst (caches s)) \<Longrightarrow> distinct (map fst (caches (snd (install env s))))"
proof -
  have names: "map fst (caches (snd (install env s))) =
      map fst (caches (opened (CACHE_NAME env) s))"
    using assms by (simp add: install_first_run opened_def)
  show "CACHE_NAME env \<in> set (map fst (caches (snd (install env s))))"
    unfolding names by (auto simp: opened_def map_of_eq_None_iff)
  show "distinct (map fst (caches (snd (install env s))))" if "distinct (map fst (caches s))"
    unfolding names using that by (auto simp: opened_def map_of_eq_None_iff)
qed

text \<open>
  C2. After activation, of the caches whose name starts with the base name exactly one is
  left, the current version's. Every other cache with that prefix has been deleted; the
  caches without the prefix are as they were, and so is the content of the current one.
  The current version's cache exists when activation starts because install has opened it.
\<close>

theorem activation_leaves_only_the_current_version:
  assumes "distinct (map fst (caches s))"
    and "CACHE_NAME env \<in> set (map fst (caches s))"
    and "activate env s = (r, evs, s')"
  shows "filter (\<lambda>n. startsWith n CACHE_BASE_NAME) (map fst (caches s')) = [CACHE_NAME env] \<and>
         (\<forall>n \<in> set (map fst (caches s)).
             startsWith n CACHE_BASE_NAME \<and> n \<noteq> CACHE_NAME env \<longrightarrow>
               n \<notin> set (map fst (caches s')) \<and> CachesDelete n \<in> set evs) \<and>
         filter (\<lambda>nc. \<not> startsWith (fst nc) CACHE_BASE_NAME) (caches s') =
           filter (\<lambda>nc. \<not> startsWith (fst nc) CACHE_BASE_NAME) (caches s) \<and>
         map_of (caches s') (CACHE_NAME env) = map_of (caches s) (CACHE_NAME env) \<and>
         r = Inr ()"
proof -
  from assms(3) have s': "caches s' = filter (\<lambda>nc. \<not> superseded env (fst nc)) (caches s)"
    and evs: "evs = [CachesKeys, ClientsClaim] @
      map CachesDelete (filter (superseded env) (map fst (caches s))) @
      ClientsMatchAll #
      map (\<lambda>c. PostMessage c (SW_ACTIVATED (CACHE_NAME env) (CACHE_VERSION env))) (clients s)"
    and r: "r = Inr ()"
    by (auto simp: activate_run)
  have "filter (\<lambda>n. startsWith n CACHE_BASE_NAME) (map fst (caches s')) =
      filter (\<lambda>n. n = CACHE_NAME env) (map fst (caches s))"
    unfolding s' filter_map filter_filter map_map [symmetric]
    by (auto simp: comp_def superseded_def CACHE_NAME_startsWith intro!: filter_cong arg_cong [where f = "map fst"])
  then have one: "filter (\<lambda>n. startsWith n CACHE_BASE_NAME) (map fst (caches s')) = [CACHE_NAME env]"
    using assms(1,2) by (simp add: filter_only)
  have gone: "\<forall>n \<in> set (map fst (caches s)).
      startsWith n CACHE_BASE_NAME \<and> n \<noteq> CACHE_NAME env \<longrightarrow>
        n \<notin> set (map fst (caches s')) \<and> CachesDelete n \<in> set evs"
    by (auto simp: s' evs superseded_def)
  have rest: "filter (\<lambda>nc. \<not> startsWith (fst nc) CACHE_BASE_NAME) (caches s') =
      filter (\<lambda>nc. \<not> startsWith (fst nc) CACHE_BASE_NAME) (caches s)"
    unfolding s' filter_filter by (rule filter_cong) (auto simp: superseded_def)
  have "map_of (filter (\<lambda>nc. \<not> superseded env (fst nc)) al) (CACHE_NAME env) = map_of al (CACHE_NAME env)" for al :: "(string \<times> (url \<rightharpoonup> response)) list"
    by (induction al) (auto simp: superseded_def)
  then have kept: "map_of (caches s') (CACHE_NAME env) = map_of (caches s) (CACHE_NAME env)"
    by (simp add: s')
  from one gone rest kept r show ?thesis by blast
qed

theorem activation_leaves_only_the_current_version_witness:
  "distinct (map fst (caches example_installed)) \<and>
   CACHE_NAME example_env \<in> set (map fst (caches example_installed)) \<and>
   ''calendar-calculator-v1.71-1690000000000'' \<in> set (map fst (caches example_installed)) \<and>
   filter (\<lambda>n. startsWith n CACHE_BASE_NAME)
     (map fst (caches (snd (snd (activate example_env example_installed))))) =
     [CACHE_NAME example_env]"
  using activation_leaves_only_the_current_version
    [of example_installed example_env "fst (activate example_env example_installed)"
      "fst (snd (activate example_env example_installed))"
      "snd (snd (activate example_env example_installed))"]
  by (simp add: example_installed_names CACHE_NAME_def CACHE_BASE_NAME_def CACHE_VERSION_def)

text \<open>
  C3, as the claim states it: every deletion of a superseded version comes before the claim
  of the client sessions. The script builds the array \<^verbatim>\<open>[caches.keys().then(...),
  self.clients.claim()]\<close> first, so \<^verbatim>\<open>claim\<close> is called before \<^verbatim>\<open>caches.keys()\<close> has
  answered and before any \<^verbatim>\<open>caches.delete\<close> is called. On the example worker the claim of
  the sessions precedes the deletion of the old version.
\<close>

theorem claim_is_called_before_the_deletions_counterexample:
  "\<not> all_before is_delete is_claim (fst (snd (activate example_env example_installed)))"
  by (simp add: example_activation_events)

text \<open>
  C3, amended. Deleting the superseded versions and claiming the sessions run side by side:
  \<^verbatim>\<open>claim\<close> is called once, before any deletion is called, and neither waits for the
  other. The notification comes after both: every message is posted after the claim and
  after every deletion, from the continuation of the \<^verbatim>\<open>Promise.all\<close> over the two; by
  then the sessions are controlled and no superseded cache is left. One message
  \<^verbatim>\<open>SW_ACTIVATED\<close> with the new cache name and version goes to each connected session.
\<close>

theorem activation_claims_first_and_notifies_last:
  assumes "activate env s = (r, evs, s')"
  shows "all_before is_claim is_delete evs \<and>
         all_before is_delete is_notification evs \<and>
         all_before is_claim is_notification evs \<and>
         filter is_claim evs = [ClientsClaim] \<and>
         filter is_delete evs = map CachesDelete (filter (superseded env) (map fst (caches s))) \<and>
         notifications evs =
           map (\<lambda>c. (c, SW_ACTIVATED (CACHE_NAME env) (CACHE_VERSION env))) (clients s) \<and>
         controlled s' = clients s \<and>
         filter (superseded env) (map fst (caches s')) = []"
proof -
  from assms have evs: "evs = [CachesKeys, ClientsClaim] @
      map CachesDelete (filter (superseded env) (map fst (caches s))) @
      ClientsMatchAll #
      map (\<lambda>c. PostMessage c (SW_ACTIVATED (CACHE_NAME env) (CACHE_VERSION env))) (clients s)"
    and s': "s' = s\<lparr>isInstalled := True,
        caches := filter (\<lambda>nc. \<not> superseded env (fst nc)) (caches s),
        controlled := clients s\<rparr>"
    by (auto simp: activate_run)
  let ?D = "map CachesDelete (filter (superseded env) (map fst (caches s)))"
  let ?N = "map (\<lambda>c. PostMessage c (SW_ACTIVATED (CACHE_NAME env) (CACHE_VERSION env))) (clients s)"
  have no: "\<not> list_ex is_claim ?D" "\<not> list_ex is_claim ?N" "\<not> list_ex is_delete ?N"
    "\<not> list_ex is_notification ?D"
    by (auto simp: list_ex_iff)
  have a: "all_before is_claim is_delete evs"
    by (simp add: evs all_before_append no all_before_none)
  have b: "all_before is_delete is_notification evs"
    by (simp add: evs all_before_append no all_before_none all_before_no_later)
  have c: "all_before is_claim is_notification evs"
    by (simp add: evs all_before_append no all_before_none)
  have d: "filter is_claim evs = [ClientsClaim]"
    by (simp add: evs filter_map comp_def)
  have e: "filter is_delete evs = map CachesDelete (filter (superseded env) (map fst (caches s)))"
    by (simp add: evs filter_map comp_def)
  have f: "notifications evs =
      map (\<lambda>c. (c, SW_ACTIVATED (CACHE_NAME env) (CACHE_VERSION env))) (clients s)"
    by (simp add: evs notifications_append notifications_deletes notifications_posts)
  have g: "filter (superseded env) (map fst (caches s')) = []"
    by (auto simp: s' filter_map filter_empty_conv)
  from a b c d e f g show ?thesis
    by (simp add: s')
qed

theorem activation_claims_first_and_notifies_last_witness:
  "all_before is_claim is_delete (fst (snd (activate example_env example_installed))) \<and>
   all_before is_delete is_notification (fst (snd (activate example_env example_installed))) \<and>
   notifications (fst (snd (activate example_env example_installed))) =
     [(1, SW_ACTIVATED (CACHE_NAME example_env) (CACHE_VERSION example_env)),
      (2, SW_ACTIVATED (CACHE_NAME example_env) (CACHE_VERSION example_env))]"
  using activation_claims_first_and_notifies_last
    [of example_env example_installed "fst (activate example_env example_installed)"
      "fst (snd (activate example_env example_installed))"
      "snd (snd (activate example_env example_installed))"]
  by (simp add: example_installed_clients)

section \<open>Request routing\<close>

subsection \<open>What the handlers compute\<close>

lemma lookup_opened: "lookup (opened n s) name key = lookup s name key"
  by (simp add: lookup_def opened_def map_add_def split: option.splits)

lemma opened_existing: "map_of (caches s) name \<noteq> None \<Longrightarrow> opened name s = s"
  by (simp add: opened_def)

lemma lookup_Some_exists: "lookup s name key = Some r \<Longrightarrow> map_of (caches s) name \<noteq> None"
  by (auto simp: lookup_def split: option.splits)

lemma opened_exists: "map_of (caches (opened name s)) name \<noteq> None"
  by (simp add: opened_def map_add_def)

lemma await_caches_open: "await (caches_open name) s = (Inr name, [CachesOpen name], opened name s)"
  by (simp add: await_def caches_open_def opened_def)

lemma await_cache_match:
  "await (cache_match cache key) s = (Inr (lookup s cache key), [CacheMatch cache key], s)"
  by (simp add: await_def cache_match_def lookup_def)

lemma matchFirst_miss:
  "\<forall>alt \<in> set alts. lookup s cache alt = None \<Longrightarrow>
   matchFirst cache alts s = (Inr None, map (CacheMatch cache) alts, s)"
  by (induction alts) (simp_all add: resolve_def andThen_def await_cache_match)

lemma getCachedResponse_hit:
  "lookup s (CACHE_NAME env) (url request) = Some r \<Longrightarrow>
   getCachedResponse env request s =
     (Inr (Some r), [CachesOpen (CACHE_NAME env), CacheMatch (CACHE_NAME env) (url request)], s)"
  by (simp add: getCachedResponse_def andThen_def await_caches_open await_cache_match
      lookup_opened resolve_def opened_existing lookup_Some_exists)

lemma getCachedResponse_miss:
  "cache_miss env request s \<Longrightarrow>
   getCachedResponse env request s =
     (Inr None,
      [CachesOpen (CACHE_NAME env), CacheMatch (CACHE_NAME env) (url request)] @
      (if isHTMLRequest request
       then map (CacheMatch (CACHE_NAME env)) (map (resolve_url env) [''./'', ''./index.html'', ''/''])
       else []),
      opened (CACHE_NAME env) s)"
  by (simp add: getCachedResponse_def andThen_def await_caches_open await_cache_match
      lookup_opened resolve_def cache_miss_def matchFirst_miss)

lemma tryNetwork_fails:
  "attempt_fails env request \<Longrightarrow>
   tryNetwork env request s =
     (if isHTMLRequest request then Inr createOfflineResponse else Inl (attempt_error env request),
      [Fetch (url request) (AbortAfter 5000)], s)"
  by (auto simp: tryNetwork_def tryCatch_def andThen_def await_def fetch_def attempt_fails_def
      attempt_error_def throw_def resolve_def split: net_reply.splits)

lemma tryNetwork_succeeds:
  "network env (url request) = Reply d r \<Longrightarrow> d < 5000 \<Longrightarrow> ok r \<Longrightarrow>
   tryNetwork env request s =
     (Inr r,
      [Fetch (url request) (AbortAfter 5000), CachesOpen (CACHE_NAME env),
       CachePut (CACHE_NAME env) (url request)],
      (opened (CACHE_NAME env) s)
        \<lparr>pending := pending s @ [PutPending (CACHE_NAME env) (url request) r]\<rparr>)"
  by (simp add: tryNetwork_def tryCatch_def andThen_def await_def fetch_def detach_def
      resolve_def caches_open_def opened_def)

lemma updateInBackground_cases:
  "updateInBackground env request s = (Inr (), [], s) \<or>
   updateInBackground env request s =
     (Inr (), [Fetch (url request) NoCache],
      s\<lparr>lastBackgroundUpdate := Some (now env),
        pending := pending s @ [BackgroundUpdate request]\<rparr>)"
  by (simp add: updateInBackground_def)

lemma handleRequest_hit:
  assumes "lookup s (CACHE_NAME env) (url request) = Some r"
  shows "handleRequest env request s =
     (Inr r,
      [CachesOpen (CACHE_NAME env), CacheMatch (CACHE_NAME env) (url request)] @
      (if isHTMLRequest request then fst (snd (updateInBackground env request s)) else []),
      (if isHTMLRequest request then snd (snd (updateInBackground env request s)) else s))"
  using updateInBackground_cases [of env request s]
  by (auto simp: handleRequest_def tryCatch_def andThen_def getCachedResponse_hit [OF assms]
      resolve_def)

lemma handleRequest_miss_fails:
  assumes "cache_miss env request s" and "attempt_fails env request"
  shows "handleRequest env request s =
     (Inr (if isHTMLRequest request then createOfflineResponse else createErrorResponse),
      [CachesOpen (CACHE_NAME env), CacheMatch (CACHE_NAME env) (url request)] @
      (if isHTMLRequest request
       then map (CacheMatch (CACHE_NAME env)) (map (resolve_url env) [''./'', ''./index.html'', ''/''])
       else []) @
      [Fetch (url request) (AbortAfter 5000)] @
      (if isHTMLRequest request then []
       else [Console (RequestHandlingFailed (message (attempt_error env request)))]),
      opened (CACHE_NAME env) s)"
  by (simp add: handleRequest_def tryCatch_def andThen_def getCachedResponse_miss [OF assms(1)]
      tryNetwork_fails [OF assms(2)] resolve_def emit_def)

lemma handleRequest_miss_succeeds:
  assumes "cache_miss env request s"
    and "network env (url request) = Reply d r" and "d < 5000" and "ok r"
  shows "handleRequest env request s =
     (Inr r,
      [CachesOpen (CACHE_NAME env), CacheMatch (CACHE_NAME env) (url request)] @
      (if isHTMLRequest request
       then map (CacheMatch (CACHE_NAME env)) (map (resolve_url env) [''./'', ''./index.html'', ''/''])
       else []) @
      [Fetch (url request) (AbortAfter 5000), CachesOpen (CACHE_NAME env),
       CachePut (CACHE_NAME env) (url request)],
      (opened (CACHE_NAME env) s)
        \<lparr>pending := pending s @ [PutPending (CACHE_NAME env) (url request) r]\<rparr>)"
  by (simp add: handleRequest_def tryCatch_def andThen_def getCachedResponse_miss [OF assms(1)]
      tryNetwork_succeeds [OF assms(2,3,4)] opened_existing opened_exists)

subsection \<open>What install leaves in the cache\<close>

lemma lookup_stored:
  "lookup (stored env cache u s) cache key =
     (case network env (resolve_url env u) of
        NetworkError m \<Rightarrow> lookup s cache key
      | Reply d r \<Rightarrow>
          if ok r \<and> resolve_url env u = key \<and> map_of (caches s) cache \<noteq> None then Some r
          else lookup s cache key)"
  by (auto simp: stored_def lookup_def map_of_store split: net_reply.splits option.splits)

lemma fold_stored_keeps:
  "lookup s cache key = Some r \<Longrightarrow> network env key = Reply d r \<Longrightarrow>
   lookup (fold (stored env cache) us s) cache key = Some r"
  by (induction us arbitrary: s) (auto simp: lookup_stored split: net_reply.splits)

lemma fold_stored_other:
  "key \<notin> resolve_url env ` set us \<Longrightarrow>
   lookup (fold (stored env cache) us s) cache key = lookup s cache key"
  by (induction us arbitrary: s) (auto simp: lookup_stored split: net_reply.splits)

lemma fold_stored_hit:
  "map_of (caches s) cache \<noteq> None \<Longrightarrow> u \<in> set us \<Longrightarrow>
   network env (resolve_url env u) = Reply d r \<Longrightarrow> ok r \<Longrightarrow>
   lookup (fold (stored env cache) us s) cache (resolve_url env u) = Some r"
proof (induction us arbitrary: s)
  case Nil
  then show ?case by simp
next
  case (Cons u' us)
  show ?case
  proof (cases "u = u'")
    case True
    have "lookup (stored env cache u s) cache (resolve_url env u) = Some r"
      using Cons.prems by (simp add: lookup_stored)
    then show ?thesis
      using Cons.prems(3) True by (simp add: fold_stored_keeps)
  next
    case False
    with Cons.prems have "u \<in> set us" by simp
    moreover have "map_of (caches (stored env cache u' s)) cache \<noteq> None"
      using Cons.prems(1) by (simp add: stored_exists)
    ultimately show ?thesis
      using Cons.IH Cons.prems(3,4) by simp
  qed
qed

lemma lookup_update_other [simp]:
  "lookup (s\<lparr>isInstalled := b\<rparr>) = lookup s"
  "lookup (s\<lparr>promises := ps\<rparr>) = lookup s"
  "lookup (s\<lparr>pending := ds\<rparr>) = lookup s"
  "lookup (s\<lparr>installPromise := p\<rparr>) = lookup s"
  "lookup (s\<lparr>lastBackgroundUpdate := l\<rparr>) = lookup s"
  by (simp_all add: lookup_def fun_eq_iff)

lemma installed_lookup:
  assumes "installPromise s = None" and "pending s = []"
    and "u \<in> set URLS_TO_CACHE"
    and "network env (resolve_url env u) = Reply d r" and "ok r"
  shows "lookup (snd (install env s)) (CACHE_NAME env) (resolve_url env u) = Some r"
  using assms
  by (simp add: install_first_run fold_stored_hit opened_exists)

lemma installed_lookup_other:
  assumes "installPromise s = None" and "pending s = []"
    and "key \<notin> resolve_url env ` set URLS_TO_CACHE"
  shows "lookup (snd (install env s)) (CACHE_NAME env) key = lookup s (CACHE_NAME env) key"
  using assms
  by (simp add: install_first_run fold_stored_other lookup_opened)

lemma example_lookups:
  "lookup example_installed (CACHE_NAME example_env) ''https://example.org/app/sw.js'' =
     Some example_response"
  "lookup example_installed (CACHE_NAME example_env) ''https://example.org/app/index.html'' =
     Some example_response"
  using installed_lookup [of example_state "''./sw.js''" example_env 30 example_response]
    installed_lookup [of example_state "''./index.html''" example_env 30 example_response]
  by (simp_all add: example_installed_def example_state_def URLS_TO_CACHE_def resolve_url_def
      startsWith_def example_env_def example_network_def ok_def example_response_def)

lemma example_lookup_miss:
  "lookup example_installed (CACHE_NAME example_env) ''https://example.org/app/data.json'' = None"
  using installed_lookup_other [of example_state "''https://example.org/app/data.json''" example_env]
    example_name_fresh
  by (simp add: example_installed_def lookup_def)
    (simp add: example_state_def URLS_TO_CACHE_def resolve_url_def startsWith_def example_env_def)

lemma CACHE_NAME_network [simp]: "CACHE_NAME (env\<lparr>network := net\<rparr>) = CACHE_NAME env"
  by (simp add: CACHE_NAME_def CACHE_VERSION_def)

lemma example_env_fields:
  "location_origin example_env = ''https://example.org''"
  "location_dir example_env = ''https://example.org/app/''"
  "network example_env = example_network"
  "location_origin offline_env = ''https://example.org''"
  "location_dir offline_env = ''https://example.org/app/''"
  "network offline_env = offline_network"
  "CACHE_NAME offline_env = CACHE_NAME example_env"
  by (simp_all add: offline_env_def example_env_def CACHE_NAME_def CACHE_VERSION_def)

lemma caches_background:
  "caches (snd (snd (updateInBackground env request s))) = caches s"
  using updateInBackground_cases [of env request s] by auto

lemma offline_response_facts:
  "status createOfflineResponse = 200"
  "map_of (headers createOfflineResponse) ''Content-Type'' = Some ''text/html; charset=utf-8''"
  "body createOfflineResponse = offlineHTML"
  "ok createOfflineResponse"
  "\<not> ok createErrorResponse"
  "createErrorResponse \<noteq> createOfflineResponse"
  by (simp_all add: createOfflineResponse_def createErrorResponse_def ok_def)

lemma example_state_miss: "cache_miss offline_env sw_navigation example_state"
  using example_name_fresh
  by (simp add: cache_miss_def lookup_def example_env_fields)

lemma example_installed_pending: "pending example_installed = []"
  by (simp add: example_installed_def install_first_run example_state_def)

lemma lookup_run_put:
  "map_of (caches s) cache \<noteq> None \<Longrightarrow>
   lookup (snd (run_detached env (PutPending cache key r) s)) cache key = Some r"
  by (auto simp: run_detached_def lookup_def map_of_store)

lemma example_data_miss: "cache_miss example_env data_request example_installed"
  using example_lookup_miss
  by (simp add: cache_miss_def data_request_def isHTMLRequest_def includes_str_def sublist_code
      suffix_to_prefix endsWith_def)

lemma example_data_request:
  "req_method data_request = ''GET''"
  "startsWith (url data_request) (location_origin example_env)"
  "\<not> includes_str (url data_request) ''sw.js''"
  "network example_env (url data_request) = Reply 30 example_response"
  "ok example_response"
  by (simp_all add: data_request_def example_env_fields includes_str_def sublist_code
      startsWith_def example_network_def ok_def example_response_def)

lemma example_data_lookup:
  "lookup example_installed (CACHE_NAME example_env) (url data_request) = None"
  using example_lookup_miss by (simp add: data_request_def)

lemma example_data_fetch:
  "fetch_listener example_env data_request example_installed =
     (RespondWith (Inr example_response),
      [CachesOpen (CACHE_NAME example_env),
       CacheMatch (CACHE_NAME example_env) (url data_request),
       Fetch (url data_request) (AbortAfter 5000), CachesOpen (CACHE_NAME example_env),
       CachePut (CACHE_NAME example_env) (url data_request)],
      (opened (CACHE_NAME example_env) example_installed)
        \<lparr>pending := [PutPending (CACHE_NAME example_env) (url data_request) example_response]\<rparr>)"
proof -
  have "\<not> isHTMLRequest data_request"
    by (simp add: data_request_def isHTMLRequest_def includes_str_def sublist_code
        suffix_to_prefix endsWith_def)
  then show ?thesis
    using handleRequest_miss_succeeds [OF example_data_miss example_data_request(4) _
        example_data_request(5)]
    by (simp add: fetch_listener_def example_data_request(1-3) example_installed_pending)
qed

subsection \<open>Requests with a cached entry\<close>

text \<open>
  C5, as the claim states it: every GET request whose URL has an entry in the current cache
  is answered with the cached content and without a network call. The listener sends every
  request whose URL contains \<^verbatim>\<open>sw.js\<close> to the network, and \<^verbatim>\<open>./sw.js\<close> is in the
  manifest: after an install the worker's script has an entry in the cache, yet a request
  for it is fetched, and without network it fails.
\<close>

theorem sw_script_is_fetched_although_cached_counterexample:
  "req_method sw_request = ''GET'' \<and>
   startsWith (url sw_request) (location_origin offline_env) \<and>
   lookup example_installed (CACHE_NAME offline_env) (url sw_request) = Some example_response \<and>
   fetch_listener offline_env sw_request example_installed =
     (RespondWith (Inl (Error ''Failed to fetch'')), [Fetch (url sw_request) NoInit],
      example_installed)"
  by (simp add: example_env_fields example_lookups sw_request_def fetch_listener_def
      includes_str_def sublist_code startsWith_def await_def fetch_def offline_network_def)

text \<open>
  C5, amended. A same-origin GET request whose URL does not contain \<^verbatim>\<open>sw.js\<close> and has an
  entry in the current cache is answered with that entry, whatever the network does. The one
  fetch that may be started is the background refresh of a page request (cache mode
  \<^verbatim>\<open>no-cache\<close>), whose continuation is left outstanding; for other requests no fetch is
  made. The cache storage is unchanged when the response is returned.
\<close>

theorem cached_request_is_answered_from_the_cache:
  assumes "req_method request = ''GET''"
    and "startsWith (url request) (location_origin env)"
    and "\<not> includes_str (url request) ''sw.js''"
    and "lookup s (CACHE_NAME env) (url request) = Some cached"
    and "fetch_listener env request s = (h, evs, s')"
  shows "h = RespondWith (Inr cached) \<and>
         (\<forall>net. fst (fetch_listener (env\<lparr>network := net\<rparr>) request s) =
                  RespondWith (Inr cached)) \<and>
         (\<forall>u i. Fetch u i \<in> set evs \<longrightarrow>
                  isHTMLRequest request \<and> u = url request \<and> i = NoCache \<and>
                  BackgroundUpdate request \<in> set (pending s')) \<and>
         (\<not> isHTMLRequest request \<longrightarrow> fetched evs = []) \<and>
         length (fetched evs) \<le> 1 \<and>
         caches s' = caches s"
proof -
  have h: "fetch_listener env request s =
      (RespondWith (Inr cached),
       [CachesOpen (CACHE_NAME env), CacheMatch (CACHE_NAME env) (url request)] @
       (if isHTMLRequest request then fst (snd (updateInBackground env request s)) else []),
       (if isHTMLRequest request then snd (snd (updateInBackground env request s)) else s))"
    using assms(1-3) by (simp add: fetch_listener_def handleRequest_hit [OF assms(4)])
  have net: "fst (fetch_listener (env\<lparr>network := net\<rparr>) request s) = RespondWith (Inr cached)"
    for net
    using assms(1-4)
    by (simp add: fetch_listener_def handleRequest_hit [of s "env\<lparr>network := net\<rparr>" request cached])
  from h assms(5) have evs: "evs =
       [CachesOpen (CACHE_NAME env), CacheMatch (CACHE_NAME env) (url request)] @
       (if isHTMLRequest request then fst (snd (updateInBackground env request s)) else [])"
    and s': "s' = (if isHTMLRequest request then snd (snd (updateInBackground env request s)) else s)"
    and "h = RespondWith (Inr cached)"
    by auto
  moreover have "\<forall>u i. Fetch u i \<in> set evs \<longrightarrow>
      isHTMLRequest request \<and> u = url request \<and> i = NoCache \<and>
      BackgroundUpdate request \<in> set (pending s')"
    using updateInBackground_cases [of env request s] by (auto simp: evs s')
  moreover have "\<not> isHTMLRequest request \<longrightarrow> fetched evs = []"
    by (simp add: evs)
  moreover have "length (fetched evs) \<le> 1"
    using updateInBackground_cases [of env request s] by (auto simp: evs)
  moreover have "caches s' = caches s"
    by (simp add: s' caches_background)
  ultimately show ?thesis
    using net by blast
qed

theorem cached_request_is_answered_from_the_cache_witness:
  "req_method page_request = ''GET'' \<and>
   startsWith (url page_request) (location_origin offline_env) \<and>
   \<not> includes_str (url page_request) ''sw.js'' \<and>
   lookup example_installed (CACHE_NAME offline_env) (url page_request) = Some example_response \<and>
   fst (fetch_listener offline_env page_request example_installed) =
     RespondWith (Inr example_response)"
  using cached_request_is_answered_from_the_cache
    [of page_request offline_env example_installed example_response
      "fst (fetch_listener offline_env page_request example_installed)"
      "fst (snd (fetch_listener offline_env page_request example_installed))"
      "snd (snd (fetch_listener offline_env page_request example_installed))"]
    example_lookups
  by (simp add: example_env_fields page_request_def includes_str_def sublist_code startsWith_def)

subsection \<open>Requests without a cached entry\<close>

text \<open>
  C6, as the claim states it: every same-origin GET page request without a cached entry,
  whose network fetch fails, gets the offline page. A navigation to a URL containing
  \<^verbatim>\<open>sw.js\<close> is a page request, and the listener answers it with the outcome of the plain
  fetch: without network the page gets the rejection, not the offline page.
\<close>

theorem sw_navigation_offline_counterexample:
  "req_method sw_navigation = ''GET'' \<and>
   startsWith (url sw_navigation) (location_origin offline_env) \<and>
   isHTMLRequest sw_navigation \<and>
   cache_miss offline_env sw_navigation example_state \<and>
   attempt_fails offline_env sw_navigation \<and>
   fst (fetch_listener offline_env sw_navigation example_state) =
     RespondWith (Inl (Error ''Failed to fetch'')) \<and>
   fst (fetch_listener offline_env sw_navigation example_state) \<noteq>
     RespondWith (Inr createOfflineResponse)"
  using example_state_miss
  by (simp add: example_env_fields sw_navigation_def fetch_listener_def isHTMLRequest_def
      includes_str_def sublist_code startsWith_def await_def fetch_def offline_network_def
      attempt_fails_def)

text \<open>
  C6, amended. A same-origin GET page request whose URL does not contain \<^verbatim>\<open>sw.js\<close>, that
  misses the cache and whose network attempt fails or times out, is answered with the
  offline page: status 200, content type \<^verbatim>\<open>text/html\<close>, the literal markup as body. One
  fetch was attempted and nothing is left outstanding.
\<close>

theorem offline_page_for_uncached_page_request:
  assumes "req_method request = ''GET''"
    and "startsWith (url request) (location_origin env)"
    and "\<not> includes_str (url request) ''sw.js''"
    and "isHTMLRequest request"
    and "cache_miss env request s"
    and "attempt_fails env request"
    and "fetch_listener env request s = (h, evs, s')"
  shows "h = RespondWith (Inr createOfflineResponse) \<and>
         status createOfflineResponse = 200 \<and>
         map_of (headers createOfflineResponse) ''Content-Type'' =
           Some ''text/html; charset=utf-8'' \<and>
         body createOfflineResponse = offlineHTML \<and>
         fetched evs = [url request] \<and>
         pending s' = pending s"
  using assms(1-4,7)
  by (auto simp: fetch_listener_def handleRequest_miss_fails [OF assms(5,6)]
      offline_response_facts)

theorem offline_page_for_uncached_page_request_witness:
  "req_method about_navigation = ''GET'' \<and>
   startsWith (url about_navigation) (location_origin offline_env) \<and>
   \<not> includes_str (url about_navigation) ''sw.js'' \<and>
   isHTMLRequest about_navigation \<and>
   cache_miss offline_env about_navigation example_state \<and>
   attempt_fails offline_env about_navigation \<and>
   fst (fetch_listener offline_env about_navigation example_state) =
     RespondWith (Inr createOfflineResponse)"
  using offline_page_for_uncached_page_request
    [of about_navigation offline_env example_state
      "fst (fetch_listener offline_env about_navigation example_state)"
      "fst (snd (fetch_listener offline_env about_navigation example_state))"
      "snd (snd (fetch_listener offline_env about_navigation example_state))"]
    example_name_fresh
  by (simp add: example_env_fields about_navigation_def includes_str_def sublist_code
      startsWith_def isHTMLRequest_def cache_miss_def lookup_def attempt_fails_def
      offline_network_def)

text \<open>
  C7. For a same-origin GET request that is not a page request, has no cached entry and
  whose fetch fails, the failure propagates out of \<^verbatim>\<open>tryNetwork\<close> to its caller and the
  page gets a failure, never the offline page: the generic error response (status 500) from
  the \<^verbatim>\<open>catch\<close> of \<^verbatim>\<open>handleRequest\<close>, or, for a URL containing \<^verbatim>\<open>sw.js\<close>, the
  rejection itself.
\<close>

theorem network_failure_of_non_page_request_is_a_failure:
  assumes "req_method request = ''GET''"
    and "startsWith (url request) (location_origin env)"
    and "\<not> isHTMLRequest request"
    and "lookup s (CACHE_NAME env) (url request) = None"
    and "router_fetch_fails env request"
    and "fetch_listener env request s = (h, evs, s')"
  shows "tryNetwork env request s =
           (Inl (attempt_error env request), [Fetch (url request) (AbortAfter 5000)], s) \<and>
         (if includes_str (url request) ''sw.js''
          then h = RespondWith (Inl (attempt_error env request))
          else h = RespondWith (Inr createErrorResponse) \<and>
               Console (RequestHandlingFailed (message (attempt_error env request))) \<in> set evs) \<and>
         is_failure h \<and>
         h \<noteq> RespondWith (Inr createOfflineResponse) \<and>
         pending s' = pending s"
proof -
  have fails: "attempt_fails env request"
    using assms(5) by (auto simp: router_fetch_fails_def attempt_fails_def split: net_reply.splits)
  have miss: "cache_miss env request s"
    using assms(3,4) by (simp add: cache_miss_def)
  have t: "tryNetwork env request s =
      (Inl (attempt_error env request), [Fetch (url request) (AbortAfter 5000)], s)"
    using assms(3) by (simp add: tryNetwork_fails [OF fails])
  show ?thesis
  proof (cases "includes_str (url request) ''sw.js''")
    case True
    with assms(5) obtain m where "network env (url request) = NetworkError m"
      by (auto simp: router_fetch_fails_def split: net_reply.splits)
    with True assms(1,2,6) t show ?thesis
      by (auto simp: fetch_listener_def await_def fetch_def attempt_error_def)
  next
    case False
    with assms(1-3,6) t show ?thesis
      by (auto simp: fetch_listener_def handleRequest_miss_fails [OF miss fails]
          offline_response_facts)
  qed
qed

theorem network_failure_of_non_page_request_is_a_failure_witness:
  "req_method data_request = ''GET'' \<and>
   startsWith (url data_request) (location_origin offline_env) \<and>
   \<not> isHTMLRequest data_request \<and>
   lookup example_installed (CACHE_NAME offline_env) (url data_request) = None \<and>
   router_fetch_fails offline_env data_request \<and>
   fst (fetch_listener offline_env data_request example_installed) =
     RespondWith (Inr createErrorResponse)"
  using network_failure_of_non_page_request_is_a_failure
    [of data_request offline_env example_installed
      "fst (fetch_listener offline_env data_request example_installed)"
      "fst (snd (fetch_listener offline_env data_request example_installed))"
      "snd (snd (fetch_listener offline_env data_request example_installed))"]
    example_lookup_miss
  by (simp add: example_env_fields data_request_def includes_str_def sublist_code
      startsWith_def isHTMLRequest_def suffix_to_prefix endsWith_def router_fetch_fails_def
      offline_network_def)

text \<open>
  C8, as the claim states it: when the response is returned, a copy is in the current cache.
  \<^verbatim>\<open>tryNetwork\<close> calls \<^verbatim>\<open>cache.put\<close> without \<^verbatim>\<open>await\<close> and returns: when the
  listener has its response, the write is still outstanding and the cache has no entry for
  the URL.
\<close>

theorem response_is_returned_before_the_copy_is_stored_counterexample:
  "req_method data_request = ''GET'' \<and>
   startsWith (url data_request) (location_origin example_env) \<and>
   cache_miss example_env data_request example_installed \<and>
   network example_env (url data_request) = Reply 30 example_response \<and> ok example_response \<and>
   fst (fetch_listener example_env data_request example_installed) =
     RespondWith (Inr example_response) \<and>
   lookup (snd (snd (fetch_listener example_env data_request example_installed)))
     (CACHE_NAME example_env) (url data_request) = None"
  by (simp add: example_data_fetch example_data_request example_data_miss lookup_opened
      example_data_lookup)

text \<open>
  C8, amended. When a request misses the cache and the network answers in time with an ok
  status, the router returns that response after it has called \<^verbatim>\<open>cache.put\<close> on the
  current cache with a copy, without waiting for the write: at the return the write is the
  outstanding operation added last, the cache has no entry yet, and once the write settles
  the cache holds the copy under the request's URL.
\<close>

theorem fetched_response_is_returned_and_its_copy_stored_after:
  assumes "req_method request = ''GET''"
    and "startsWith (url request) (location_origin env)"
    and "\<not> includes_str (url request) ''sw.js''"
    and "cache_miss env request s"
    and "network env (url request) = Reply d r" and "d < 5000" and "ok r"
    and "fetch_listener env request s = (h, evs, s')"
  shows "h = RespondWith (Inr r) \<and>
         fetched evs = [url request] \<and>
         CachePut (CACHE_NAME env) (url request) \<in> set evs \<and>
         pending s' = pending s @ [PutPending (CACHE_NAME env) (url request) r] \<and>
         lookup s' (CACHE_NAME env) (url request) = None \<and>
         (\<forall>env'. lookup (snd (run_detached env' (PutPending (CACHE_NAME env) (url request) r) s'))
                    (CACHE_NAME env) (url request) = Some r)"
proof -
  from assms(1-3,8) have h: "h = RespondWith (Inr r)"
    and evs: "evs =
      [CachesOpen (CACHE_NAME env), CacheMatch (CACHE_NAME env) (url request)] @
      (if isHTMLRequest request
       then map (CacheMatch (CACHE_NAME env)) (map (resolve_url env) [''./'', ''./index.html'', ''/''])
       else []) @
      [Fetch (url request) (AbortAfter 5000), CachesOpen (CACHE_NAME env),
       CachePut (CACHE_NAME env) (url request)]"
    and s': "s' = (opened (CACHE_NAME env) s)
        \<lparr>pending := pending s @ [PutPending (CACHE_NAME env) (url request) r]\<rparr>"
    by (auto simp: fetch_listener_def handleRequest_miss_succeeds [OF assms(4-7)])
  have "fetched evs = [url request]" and "CachePut (CACHE_NAME env) (url request) \<in> set evs"
    by (simp_all add: evs)
  moreover have "pending s' = pending s @ [PutPending (CACHE_NAME env) (url request) r]"
    by (simp add: s')
  moreover have "lookup s' (CACHE_NAME env) (url request) = None"
    using assms(4) by (simp add: s' lookup_opened cache_miss_def)
  moreover have "map_of (caches s') (CACHE_NAME env) \<noteq> None"
    using opened_exists [of "CACHE_NAME env" s] by (simp add: s')
  then have "\<forall>env'. lookup (snd (run_detached env' (PutPending (CACHE_NAME env) (url request) r) s'))
      (CACHE_NAME env) (url request) = Some r"
    by (simp add: lookup_run_put)
  ultimately show ?thesis
    using h by blast
qed

theorem fetched_response_is_returned_and_its_copy_stored_after_witness:
  "req_method data_request = ''GET'' \<and>
   startsWith (url data_request) (location_origin example_env) \<and>
   \<not> includes_str (url data_request) ''sw.js'' \<and>
   cache_miss example_env data_request example_installed \<and>
   network example_env (url data_request) = Reply 30 example_response \<and>
   pending (snd (snd (fetch_listener example_env data_request example_installed))) =
     pending example_installed @
     [PutPending (CACHE_NAME example_env) (url data_request) example_response] \<and>
   lookup (snd (run_detached example_env
       (PutPending (CACHE_NAME example_env) (url data_request) example_response)
       (snd (snd (fetch_listener example_env data_request example_installed)))))
     (CACHE_NAME example_env) (url data_request) = Some example_response"
  using fetched_response_is_returned_and_its_copy_stored_after
    [of data_request example_env example_installed 30 example_response
      "fst (fetch_listener example_env data_request example_installed)"
      "fst (snd (fetch_listener example_env data_request example_installed))"
      "snd (snd (fetch_listener example_env data_request example_installed))"]
    example_data_miss example_data_request
  by (simp add: example_data_fetch example_installed_pending)

section \<open>The rate limit of the background refresh\<close>

lemma refresh_skips:
  "lastBackgroundUpdate s = Some l \<Longrightarrow> 0 < l \<Longrightarrow> t < l + 30000 \<Longrightarrow>
   updateInBackground (env\<lparr>now := t\<rparr>) request s = (Inr (), [], s)"
  by (simp add: updateInBackground_def)

lemma refresh_fetches:
  "lastBackgroundUpdate s = Some l \<Longrightarrow> l + 30000 \<le> t \<Longrightarrow>
   updateInBackground (env\<lparr>now := t\<rparr>) request s =
     (Inr (), [Fetch (url request) NoCache],
      s\<lparr>lastBackgroundUpdate := Some t, pending := pending s @ [BackgroundUpdate request]\<rparr>)"
  by (simp add: updateInBackground_def)

lemma refreshes_one_fetch:
  "k < length calls \<Longrightarrow> length (fetched (refreshes env calls s ! k)) \<le> 1"
proof (induction calls arbitrary: s k)
  case Nil
  then show ?case by simp
next
  case (Cons call calls)
  show ?case
    using updateInBackground_cases [of "env\<lparr>now := fst call\<rparr>" "snd call" s] Cons
    by (cases k) auto
qed

lemma refreshes_after_a_fetch:
  "lastBackgroundUpdate s = Some l \<Longrightarrow> 0 < l \<Longrightarrow> sorted (map fst calls) \<Longrightarrow>
   \<forall>t \<in> set (map fst calls). l \<le> t \<Longrightarrow> j < length calls \<Longrightarrow>
   fetched (refreshes env calls s ! j) \<noteq> [] \<Longrightarrow> l + 30000 \<le> fst (calls ! j)"
proof (induction calls arbitrary: s l j)
  case Nil
  then show ?case by simp
next
  case (Cons call calls)
  show ?case
  proof (cases "fst call < l + 30000")
    case True
    then have step: "updateInBackground (env\<lparr>now := fst call\<rparr>) (snd call) s = (Inr (), [], s)"
      using Cons.prems(1,2) by (simp add: refresh_skips)
    show ?thesis
    proof (cases j)
      case 0
      with Cons.prems(6) step show ?thesis by simp
    next
      case (Suc j')
      with Cons.prems step Cons.IH [of s l j'] show ?thesis by simp
    qed
  next
    case False
    then have late: "l + 30000 \<le> fst call" by simp
    let ?s' = "s\<lparr>lastBackgroundUpdate := Some (fst call),
        pending := pending s @ [BackgroundUpdate (snd call)]\<rparr>"
    have step: "updateInBackground (env\<lparr>now := fst call\<rparr>) (snd call) s =
        (Inr (), [Fetch (url (snd call)) NoCache], ?s')"
      using Cons.prems(1) late by (simp add: refresh_fetches)
    show ?thesis
    proof (cases j)
      case 0
      with late show ?thesis by simp
    next
      case (Suc j')
      have "fst call + 30000 \<le> fst (calls ! j')"
        using Cons.prems Suc step late Cons.IH [of ?s' "fst call" j'] by auto
      with late Suc show ?thesis by simp
    qed
  qed
qed

lemma refreshes_not_both:
  "sorted (map fst calls) \<Longrightarrow> \<forall>t \<in> set (map fst calls). 0 < t \<Longrightarrow> i < j \<Longrightarrow>
   j < length calls \<Longrightarrow> fst (calls ! j) < fst (calls ! i) + 30000 \<Longrightarrow>
   fetched (refreshes env calls s ! i) = [] \<or> fetched (refreshes env calls s ! j) = []"
proof (induction calls arbitrary: s i j)
  case Nil
  then show ?case by simp
next
  case (Cons call calls)
  from Cons.prems(3) obtain j' where j: "j = Suc j'" by (cases j) auto
  show ?case
  proof (cases i)
    case 0
    show ?thesis
    proof (cases "fst (snd (updateInBackground (env\<lparr>now := fst call\<rparr>) (snd call) s)) = []")
      case True
      with 0 show ?thesis by (auto split: prod.splits)
    next
      case False
      let ?s' = "s\<lparr>lastBackgroundUpdate := Some (fst call),
          pending := pending s @ [BackgroundUpdate (snd call)]\<rparr>"
      from False have step: "updateInBackground (env\<lparr>now := fst call\<rparr>) (snd call) s =
          (Inr (), [Fetch (url (snd call)) NoCache], ?s')"
        using updateInBackground_cases [of "env\<lparr>now := fst call\<rparr>" "snd call" s] by auto
      have "fetched (refreshes env calls ?s' ! j') = []"
      proof (rule ccontr)
        assume "fetched (refreshes env calls ?s' ! j') \<noteq> []"
        then have "fst call + 30000 \<le> fst (calls ! j')"
          using refreshes_after_a_fetch [of ?s' "fst call" calls j' env] Cons.prems j by auto
        with Cons.prems(5) 0 j show False by simp
      qed
      with step j show ?thesis by simp
    qed
  next
    case (Suc i')
    with Cons.prems j Cons.IH [of i' j'] show ?thesis
      by (auto split: prod.splits)
  qed
qed

lemma example_refreshes:
  "refreshes example_env
     [(1700000100000, page_request), (1700000110000, about_navigation),
      (1700000131000, page_request)] example_installed =
   [[Fetch (url page_request) NoCache], [], [Fetch (url page_request) NoCache]]"
  by (simp add: updateInBackground_def example_installed_def install_first_run example_state_def)

text \<open>
  The time of the last refresh is written by the synchronous part of the refresh alone:
  settling an outstanding operation, the install listener, activation and the cache lookup
  leave it as it is.
\<close>

lemma store_lastBackgroundUpdate [simp]:
  "lastBackgroundUpdate (store cache key r s) = lastBackgroundUpdate s"
  by (simp add: store_def)

lemma await_cache_put:
  "await (cache_put cache key r) s = (Inr Undefined, [CachePut cache key], store cache key r s)"
  by (simp add: await_def cache_put_def)

lemma await_clients_matchAll:
  "await clients_matchAll s =
     (Inr (filter (\<lambda>c. c \<in> set (controlled s)) (clients s)), [ClientsMatchAll], s)"
  by (simp add: await_def clients_matchAll_def)

lemma updateInBackground_then_keeps:
  "lastBackgroundUpdate (snd (snd (updateInBackground_then env request s))) =
     lastBackgroundUpdate s"
  by (auto simp: updateInBackground_then_def tryCatch_def andThen_def fetch_def resolve_def
      await_caches_open await_cache_match await_cache_put await_clients_matchAll
      forEach_postMessage split: net_reply.splits option.splits)

lemma run_detached_keeps:
  "lastBackgroundUpdate (snd (run_detached env d s)) = lastBackgroundUpdate s"
proof (cases d)
  case (InstallChain p)
  then show ?thesis by (simp add: run_detached_def installChain_settles)
next
  case (PutPending cache key r)
  then show ?thesis by (simp add: run_detached_def)
next
  case (BackgroundUpdate request)
  then show ?thesis
    using updateInBackground_then_keeps [of env request s]
    by (auto simp: run_detached_def split: prod.splits)
qed

lemma other_handlers_keep:
  "lastBackgroundUpdate (snd (snd (install_listener env s))) = lastBackgroundUpdate s"
  "lastBackgroundUpdate (snd (snd (activate env s))) = lastBackgroundUpdate s"
  "lastBackgroundUpdate (snd (snd (getCachedResponse env request s))) = lastBackgroundUpdate s"
    apply (simp add: install_listener_def Let_def split: option.splits)
   apply (simp add: activate_run)
  apply (auto simp: getCachedResponse_def andThen_def await_caches_open await_cache_match
      resolve_def split: option.splits)
  done

text \<open>
  C9. In a sequence of invocations of the background refresh, for whatever requests, any two
  invocations less than 30000 ms apart make at most one fetch between them. The clock
  readings are those of \<^verbatim>\<open>Date.now()\<close>: positive and not decreasing along the sequence.
  The limit is the single global \<^verbatim>\<open>self.lastBackgroundUpdate\<close>; the requests play no part
  in it.
\<close>

theorem one_background_fetch_in_thirty_seconds:
  assumes "sorted (map fst calls)" and "\<forall>t \<in> set (map fst calls). 0 < t"
    and "i < j" and "j < length calls"
    and "fst (calls ! j) < fst (calls ! i) + 30000"
  shows "length (fetched (refreshes env calls s ! i)) +
         length (fetched (refreshes env calls s ! j)) \<le> 1"
  using refreshes_not_both [OF assms, of env s]
    refreshes_one_fetch [of i calls env s] refreshes_one_fetch [of j calls env s] assms(3,4)
  by auto

theorem one_background_fetch_in_thirty_seconds_witness:
  "length (fetched (refreshes example_env
     [(1700000100000, page_request), (1700000110000, about_navigation),
      (1700000131000, page_request)] example_installed ! 0)) +
   length (fetched (refreshes example_env
     [(1700000100000, page_request), (1700000110000, about_navigation),
      (1700000131000, page_request)] example_installed ! 1)) \<le> 1"
  using one_background_fetch_in_thirty_seconds
    [of "[(1700000100000, page_request), (1700000110000, about_navigation),
      (1700000131000, page_request)]" 0 1 example_env example_installed]
  by simp
end
